(* ===== verification/Prelude.thy ===== *)
theory Prelude
  imports Main "HOL-Library.Word" "HOL-Library.Char_ord" "HOL-Library.List_Lexorder"
    "HOL-Library.Sublist"
begin

text \<open>
  What every component of the model shares: the C++ integer type, the ways a C++ call can
  end without a value, the one-byte view of \<open>char\<close>, and the run of a byte-at-a-time
  machine over a buffer.

  \<^item> A C++ \<open>int\<close> is \<open>i32\<close>, a 32-bit word read with \<open>sint\<close>. Signed overflow is formally
    undefined in C++; the model takes the two's complement wrap-around that the compilers
    of the build (g++ on x86-64) produce, and the theorems that need an exact value say how
    large the operands may be.
  \<^item> An exception, or undefined behaviour the code can really reach, is an \<open>Inl\<close> of
    \<open>cpp_error\<close>.
  \<^item> A \<open>char\<close> is one byte. \<open>char_int\<close> is its promotion to \<open>int\<close> on the target, where plain
    \<open>char\<close> is signed.
\<close>

named_theorems cpp_lib \<open>equations of the C++ library functions the components call\<close>
named_theorems byte_class \<open>facts about the byte classes of the HTTP grammar\<close>

subsection \<open>Integers\<close>

type_synonym i32 = "32 word"

definition INT_MAX :: int where "INT_MAX = 2147483647"
definition INT_MIN :: int where "INT_MIN = - 2147483648"

definition in_int_range :: "int \<Rightarrow> bool" where
  "in_int_range i \<longleftrightarrow> INT_MIN \<le> i \<and> i \<le> INT_MAX"

lemma sint_i32_range: "in_int_range (sint (w :: i32))"
  using sint_range_size [of w] by (simp add: in_int_range_def INT_MIN_def INT_MAX_def word_size)

lemma sint_of_int_i32 [cpp_lib]: "in_int_range i \<Longrightarrow> sint (word_of_int i :: i32) = i"
  unfolding in_int_range_def INT_MIN_def INT_MAX_def sint_sbintrunc'
  by (rule signed_take_bit_int_eq_self) simp_all

lemma word_of_int_sint_i32 [simp]: "(word_of_int (sint (w :: i32)) :: i32) = w"
  by simp

subsection \<open>Errors\<close>

datatype cpp_error =
    OutOfRange          \<comment> \<open>\<open>std::out_of_range\<close>\<close>
  | InvalidArgument     \<comment> \<open>\<open>std::invalid_argument\<close>\<close>
  | SystemError         \<comment> \<open>an error of the network or of a service, thrown as an exception\<close>
  | UndefinedBehaviour  \<comment> \<open>the C++ standard gives the execution no meaning\<close>

fun is_ok :: "'e + 'a \<Rightarrow> bool" where
  "is_ok (Inl e) = False"
| "is_ok (Inr x) = True"

lemma is_ok_iff: "is_ok r \<longleftrightarrow> (\<exists>x. r = Inr x)"
  by (cases r) auto

text \<open>\<open>and_then r f\<close>: go on with \<open>f\<close> unless \<open>r\<close> is an error.\<close>

fun and_then :: "'e + 'a \<Rightarrow> ('a \<Rightarrow> 'e + 'b) \<Rightarrow> 'e + 'b" where
  "and_then (Inl e) f = Inl e"
| "and_then (Inr x) f = f x"

lemma and_then_Inr: "and_then r f = Inr y \<longleftrightarrow> (\<exists>x. r = Inr x \<and> f x = Inr y)"
  by (cases r) auto

lemma and_then_Inl: "and_then r f = Inl e \<longleftrightarrow> r = Inl e \<or> (\<exists>x. r = Inr x \<and> f x = Inl e)"
  by (cases r) auto

text \<open>\<open>all_ok P r\<close>: if \<open>r\<close> is a value, the value satisfies \<open>P\<close>.\<close>

definition all_ok :: "('a \<Rightarrow> bool) \<Rightarrow> 'e + 'a \<Rightarrow> bool" where
  "all_ok P r \<longleftrightarrow> (\<forall>x. r = Inr x \<longrightarrow> P x)"

lemma all_ok_simps [simp]: "all_ok P (Inl e)" "all_ok P (Inr x) = P x"
  by (simp_all add: all_ok_def)

lemma all_ok_and_then:
  "all_ok P r \<Longrightarrow> (\<And>x. P x \<Longrightarrow> all_ok Q (f x)) \<Longrightarrow> all_ok Q (and_then r f)"
  by (cases r) simp_all

lemma all_okD: "all_ok P r \<Longrightarrow> r = Inr x \<Longrightarrow> P x"
  by (simp add: all_ok_def)

subsection \<open>Bytes\<close>

definition char_int :: "char \<Rightarrow> int" where
  "char_int c = (if of_char c < (128 :: int) then of_char c else of_char c - 256)"

abbreviation CR :: char where "CR \<equiv> CHR 0x0D"
abbreviation LF :: char where "LF \<equiv> CHR 0x0A"
abbreviation TAB :: char where "TAB \<equiv> CHR 0x09"
abbreviation SP :: char where "SP \<equiv> CHR 0x20"
abbreviation crlf :: string where "crlf \<equiv> [CR, LF]"

lemma of_char_int_bounds: "0 \<le> (of_char c :: int)" "(of_char c :: int) < 256"
proof -
  have "(of_char c :: int) = int (of_char c :: nat)" by (simp only: of_nat_of_char)
  then show "0 \<le> (of_char c :: int)" "(of_char c :: int) < 256"
    using nat_of_char_less_256 [of c] by linarith+
qed

subsection \<open>Running a byte machine over a buffer\<close>

text \<open>
  Both HTTP parsers of the program are machines that take one byte at a time and answer
  with one of three verdicts. \<open>feed step s bs\<close> is the state after the machine has
  swallowed all of \<open>bs\<close> and still wants more, \<open>None\<close> when it stopped before.
\<close>

datatype result_type = Good | Bad | Indeterminate

fun feed :: "('s \<Rightarrow> char \<Rightarrow> result_type \<times> 's) \<Rightarrow> 's \<Rightarrow> char list \<Rightarrow> 's option" where
  "feed step s [] = Some s"
| "feed step s (c # cs) =
     (case step s c of (Indeterminate, s') \<Rightarrow> feed step s' cs | _ \<Rightarrow> None)"

lemma feed_append:
  "feed step s (xs @ ys) = (case feed step s xs of None \<Rightarrow> None | Some s' \<Rightarrow> feed step s' ys)"
  by (induction xs arbitrary: s) (auto split: prod.splits result_type.splits)

lemma feed_appendI:
  "feed step s xs = Some s' \<Longrightarrow> feed step s' ys = r \<Longrightarrow> feed step s (xs @ ys) = r"
  by (simp add: feed_append)

lemma feed_step: "step s c = (Indeterminate, s') \<Longrightarrow> feed step s (c # cs) = feed step s' cs"
  by simp

lemma feed_snocE:
  assumes "feed step s (xs @ [c]) = Some t"
  obtains s' where "feed step s xs = Some s'" "step s' c = (Indeterminate, t)"
  using assms by (auto simp: feed_append split: option.splits prod.splits result_type.splits)

text \<open>What every step keeps, a run keeps.\<close>

lemma feed_invariant:
  assumes "feed step s xs = Some t" and "P s"
    and "\<And>s c s'. P s \<Longrightarrow> step s c = (Indeterminate, s') \<Longrightarrow> P s'"
  shows "P t"
  using assms(1,2)
proof (induction xs arbitrary: s)
  case Nil
  then show ?case by simp
next
  case (Cons c cs)
  then show ?case
    by (auto split: prod.splits result_type.splits intro: assms(3))
qed

text \<open>\<open>keeps P out\<close>: unless the verdict is \<open>Bad\<close>, the state of the outcome satisfies \<open>P\<close>.\<close>

definition keeps :: "('s \<Rightarrow> bool) \<Rightarrow> result_type \<times> 's \<Rightarrow> bool" where
  "keeps P out \<longleftrightarrow> fst out \<noteq> Bad \<longrightarrow> P (snd out)"

lemma keeps_simps [simp]:
  "keeps P (Bad, s)" "keeps P (Indeterminate, s) = P s" "keeps P (Good, s) = P s"
  "keeps P (if b then x else y) = (if b then keeps P x else keeps P y)"
  by (simp_all add: keeps_def)

lemma keepsD: "keeps P out \<Longrightarrow> out = (r, s) \<Longrightarrow> r \<noteq> Bad \<Longrightarrow> P s"
  by (simp add: keeps_def)

text \<open>
  The contract of such a machine: it logs every byte it is given, whatever the verdict, and
  its well-formedness is kept as long as it asks for more. Both HTTP parsers provide it.
\<close>

locale byte_machine =
  fixes step :: "'s \<Rightarrow> char \<Rightarrow> result_type \<times> 's"
    and log :: "'s \<Rightarrow> char list"
    and ok :: "'s \<Rightarrow> bool"
  assumes log_step: "log (snd (step s c)) = log s @ [c]"
    and ok_step: "ok s \<Longrightarrow> step s c = (Indeterminate, s') \<Longrightarrow> ok s'"
begin

lemma feed_log: "feed step s xs = Some t \<Longrightarrow> log t = log s @ xs"
proof (induction xs arbitrary: s)
  case Nil
  then show ?case by simp
next
  case (Cons c cs)
  obtain r s' where st: "step s c = (r, s')" by (cases "step s c")
  with log_step [of s c] have "log s' = log s @ [c]" by simp
  with Cons st show ?case by (auto split: result_type.splits)
qed

lemma feed_ok: "feed step s xs = Some t \<Longrightarrow> ok s \<Longrightarrow> ok t"
  by (rule feed_invariant) (auto intro: ok_step)

text \<open>The bytes swallowed so far determine how the buffer was cut: two runs that reach the
  same log from the same state swallowed the same bytes.\<close>

lemma feed_same_log:
  "feed step s xs = Some t \<Longrightarrow> feed step s ys = Some u \<Longrightarrow> log t = log u \<Longrightarrow> xs = ys \<and> t = u"
  using feed_log [of s xs t] feed_log [of s ys u] by simp

end

end
