(* ===== verification/CppString.thy ===== *)
theory CppString
  imports Prelude
begin

text \<open>
  The operations of \<open>std::string\<close> and the number conversions the program calls, each as the
  C++ standard describes it. A position is a \<open>nat\<close>, \<open>std::string::npos\<close> is \<open>None\<close>, and a
  position past the end raises where the library raises.

  \<^item> \<open>find_from pat s pos\<close>: \<open>s.find(pat, pos)\<close>; \<open>find_last_of c s\<close>: \<open>s.find_last_of(c)\<close>.
  \<^item> \<open>substr s pos n\<close> and \<open>substr_from s pos\<close>: \<open>s.substr(pos, n)\<close>, \<open>s.substr(pos)\<close>.
  \<^item> \<open>replace_at s pos n t\<close>: \<open>s.replace(pos, n, t)\<close>.
  \<^item> \<open>strcasecmp_eq s t\<close>: \<open>strcasecmp(s.c_str(), t.c_str()) == 0\<close> in the C locale.
  \<^item> \<open>stoi base s\<close>: \<open>std::stoi(s, 0, base)\<close>, that is \<open>strtol\<close> followed by the range check.
  \<^item> \<open>to_string i\<close>: \<open>std::to_string\<close> of an integer.

  The lemmas give the laws the components use: where \<open>find\<close> finds, when \<open>substr\<close> raises, and
  that \<open>stoi\<close> reads back what \<open>to_string\<close> prints.
\<close>

subsection \<open>Searching and slicing\<close>

fun find_aux :: "string \<Rightarrow> string \<Rightarrow> nat \<Rightarrow> nat option" where
  "find_aux pat [] i = (if pat = [] then Some i else None)"
| "find_aux pat (c # cs) i =
     (if prefix pat (c # cs) then Some i else find_aux pat cs (Suc i))"

definition find_from :: "string \<Rightarrow> string \<Rightarrow> nat \<Rightarrow> nat option" where
  "find_from pat s pos = (if pos \<le> length s then find_aux pat (drop pos s) pos else None)"

fun find_last_of :: "char \<Rightarrow> string \<Rightarrow> nat option" where
  "find_last_of c [] = None"
| "find_last_of c (x # xs) =
     (case find_last_of c xs of
        Some i \<Rightarrow> Some (Suc i)
      | None \<Rightarrow> (if x = c then Some 0 else None))"

definition contains_str :: "string \<Rightarrow> string \<Rightarrow> bool" where
  "contains_str s pat \<longleftrightarrow> find_from pat s 0 \<noteq> None"

definition substr :: "string \<Rightarrow> nat \<Rightarrow> nat \<Rightarrow> cpp_error + string" where
  "substr s pos n = (if length s < pos then Inl OutOfRange else Inr (take n (drop pos s)))"

definition substr_from :: "string \<Rightarrow> nat \<Rightarrow> cpp_error + string" where
  "substr_from s pos = (if length s < pos then Inl OutOfRange else Inr (drop pos s))"

definition replace_at :: "string \<Rightarrow> nat \<Rightarrow> nat \<Rightarrow> string \<Rightarrow> string" where
  "replace_at s pos n t = take pos s @ t @ drop (pos + n) s"

lemma find_aux_Some:
  "find_aux pat s k = Some i \<Longrightarrow> \<exists>j \<le> length s. i = k + j \<and> prefix pat (drop j s)"
proof (induction pat s k rule: find_aux.induct)
  case (1 pat k)
  then show ?case by (auto split: if_splits)
next
  case (2 pat c cs k)
  show ?case
  proof (cases "prefix pat (c # cs)")
    case True
    with 2 show ?thesis by (intro exI [of _ 0]) simp
  next
    case False
    with 2 obtain j where "j \<le> length cs" "i = Suc k + j" "prefix pat (drop j cs)"
      by auto
    then show ?thesis by (intro exI [of _ "Suc j"]) simp
  qed
qed

lemma find_from_Some:
  assumes "find_from pat s pos = Some i"
  shows "pos \<le> i" "i \<le> length s" "prefix pat (drop i s)"
proof -
  have le: "pos \<le> length s" and aux: "find_aux pat (drop pos s) pos = Some i"
    using assms by (auto simp: find_from_def split: if_splits)
  obtain j where "j \<le> length (drop pos s)" "i = pos + j" "prefix pat (drop j (drop pos s))"
    using find_aux_Some [OF aux] by blast
  with le show "pos \<le> i" "i \<le> length s" "prefix pat (drop i s)"
    by (simp_all add: add.commute)
qed

lemma find_from_Some_length:
  "find_from pat s pos = Some i \<Longrightarrow> i + length pat \<le> length s"
  using find_from_Some(2,3) [of pat s pos i] prefix_length_le [of pat "drop i s"] by simp

lemma find_aux_None: "find_aux pat s k = None \<Longrightarrow> j \<le> length s \<Longrightarrow> \<not> prefix pat (drop j s)"
proof (induction pat s k arbitrary: j rule: find_aux.induct)
  case (1 pat i)
  then show ?case by (auto split: if_splits)
next
  case (2 pat c cs i)
  then show ?case by (cases j) (auto split: if_splits)
qed

lemma find_last_of_Some:
  "find_last_of c s = Some i \<Longrightarrow> i < length s \<and> s ! i = c \<and> c \<notin> set (drop (Suc i) s)"
proof (induction s arbitrary: i)
  case Nil
  then show ?case by simp
next
  case (Cons x xs)
  have none: "find_last_of c xs = None \<Longrightarrow> c \<notin> set xs"
    by (induction xs) (auto split: option.splits if_splits)
  show ?case
    using Cons none by (auto split: option.splits if_splits)
qed

lemma find_last_of_None: "find_last_of c s = None \<longleftrightarrow> c \<notin> set s"
  by (induction s) (auto split: option.splits)

lemma find_last_of_split:
  "find_last_of c s = Some i \<Longrightarrow> s = take i s @ c # drop (Suc i) s \<and> c \<notin> set (drop (Suc i) s)"
  using find_last_of_Some [of c s i] by (auto simp: id_take_nth_drop)

lemma find_last_of_append:
  "c \<notin> set t \<Longrightarrow> find_last_of c (p @ c # t) = Some (length p)"
proof (induction p)
  case Nil
  then have "find_last_of c t = None" by (simp add: find_last_of_None)
  then show ?case by simp
next
  case (Cons x p)
  then show ?case by simp
qed

subsection \<open>Letter case\<close>

definition to_lower :: "char \<Rightarrow> char" where
  "to_lower c = (let n = of_char c :: nat in if 65 \<le> n \<and> n \<le> 90 then char_of (n + 32) else c)"

definition c_str :: "string \<Rightarrow> string" where
  "c_str s = takeWhile (\<lambda>c. c \<noteq> CHR 0x00) s"

definition strcasecmp_eq :: "string \<Rightarrow> string \<Rightarrow> bool" where
  "strcasecmp_eq s t \<longleftrightarrow> map to_lower (c_str s) = map to_lower (c_str t)"

lemma strcasecmp_refl [simp]: "strcasecmp_eq s s"
  by (simp add: strcasecmp_eq_def)

subsection \<open>Numbers\<close>

definition is_space :: "char \<Rightarrow> bool" where
  "is_space c \<longleftrightarrow> (let n = of_char c :: nat in n = 32 \<or> (9 \<le> n \<and> n \<le> 13))"

definition digit_val :: "char \<Rightarrow> nat" where
  "digit_val c = (let n = of_char c :: nat in
     if 48 \<le> n \<and> n \<le> 57 then n - 48
     else if 97 \<le> n \<and> n \<le> 122 then n - 87
     else if 65 \<le> n \<and> n \<le> 90 then n - 55 else 99)"

definition skip_hex_prefix :: "nat \<Rightarrow> string \<Rightarrow> string" where
  "skip_hex_prefix base s =
     (if base = 16 \<and> 2 < length s \<and> s ! 0 = CHR ''0'' \<and> s ! 1 \<in> {CHR ''x'', CHR ''X''}
         \<and> digit_val (s ! 2) < 16
      then drop 2 s else s)"

definition value_of :: "nat \<Rightarrow> string \<Rightarrow> int" where
  "value_of base ds = foldl (\<lambda>a d. a * int base + int (digit_val d)) 0 ds"

definition stoi :: "nat \<Rightarrow> string \<Rightarrow> cpp_error + int" where
  "stoi base s =
     (let s1 = dropWhile is_space s;
          neg = (s1 \<noteq> [] \<and> hd s1 = CHR ''-'');
          s2 = (if s1 \<noteq> [] \<and> hd s1 \<in> {CHR ''-'', CHR ''+''} then tl s1 else s1);
          ds = takeWhile (\<lambda>c. digit_val c < base) (skip_hex_prefix base s2);
          v = (if neg then - value_of base ds else value_of base ds)
      in if ds = [] then Inl InvalidArgument
         else if in_int_range v then Inr v else Inl OutOfRange)"

fun dec_string :: "nat \<Rightarrow> string" where
  "dec_string n =
     (if n < 10 then [char_of (48 + n)] else dec_string (n div 10) @ [char_of (48 + n mod 10)])"

declare dec_string.simps [simp del]

definition to_string :: "int \<Rightarrow> string" where
  "to_string i = (if i < 0 then CHR ''-'' # dec_string (nat (- i)) else dec_string (nat i))"

definition hex_digit :: "nat \<Rightarrow> char" where
  "hex_digit n = char_of (if n < 10 then 48 + n else 87 + n)"

lemma digit_val_char_of: "n < 10 \<Longrightarrow> digit_val (char_of (48 + n)) = n"
  by (simp add: digit_val_def)

lemma of_char_digit: "n < 10 \<Longrightarrow> (of_char (char_of (48 + n)) :: nat) = 48 + n"
  by simp

lemma dec_string_nonempty [simp]: "dec_string n \<noteq> []"
  by (subst dec_string.simps) simp

lemma dec_string_codes:
  "c \<in> set (dec_string n) \<Longrightarrow> 48 \<le> (of_char c :: nat) \<and> (of_char c :: nat) \<le> 57"
proof (induction n rule: dec_string.induct)
  case (1 n)
  show ?case
  proof (cases "n < 10")
    case True
    with "1.prems" show ?thesis by (simp add: dec_string.simps [of n])
  next
    case False
    with "1.prems" consider "c \<in> set (dec_string (n div 10))" | "c = char_of (48 + n mod 10)"
      by (auto simp: dec_string.simps [of n])
    then show ?thesis
    proof cases
      case 1
      then show ?thesis using "1.IH" False by blast
    next
      case 2
      have "n mod 10 < 10" by simp
      then have "(of_char c :: nat) = 48 + n mod 10" using 2 of_char_digit by blast
      then show ?thesis by simp
    qed
  qed
qed

lemma dec_string_digit_val: "c \<in> set (dec_string n) \<Longrightarrow> digit_val c < 10"
  using dec_string_codes [of c n] by (auto simp: digit_val_def Let_def)

lemma value_of_append:
  "value_of b (xs @ [d]) = value_of b xs * int b + int (digit_val d)"
  by (simp add: value_of_def)

lemma value_of_dec_string [simp]: "value_of 10 (dec_string n) = int n"
proof (induction n rule: dec_string.induct)
  case (1 n)
  show ?case
  proof (cases "n < 10")
    case True
    then show ?thesis
      by (simp add: dec_string.simps [of n] value_of_def digit_val_char_of)
  next
    case False
    have d: "digit_val (char_of (48 + n mod 10)) = n mod 10"
      by (rule digit_val_char_of) simp
    have "value_of 10 (dec_string n) = int (n div 10) * 10 + int (n mod 10)"
      using False "1.IH" by (simp add: dec_string.simps [of n] value_of_append d)
    also have "\<dots> = int n"
      by (metis div_mult_mod_eq of_nat_add of_nat_mult of_nat_numeral)
    finally show ?thesis .
  qed
qed

lemma dec_string_char_int:
  assumes "c \<in> set (dec_string n)"
  shows "char_int c - 48 = int (digit_val c)" "char_int CHR ''0'' = 48"
    "48 \<le> char_int c" "char_int c \<le> 57"
proof -
  have *: "(of_char c :: int) = int (of_char c)" by (simp only: of_nat_of_char)
  show "char_int c - 48 = int (digit_val c)" "48 \<le> char_int c" "char_int c \<le> 57"
    using dec_string_codes [OF assms] unfolding char_int_def * by (simp_all add: digit_val_def)
  show "char_int CHR ''0'' = 48" by (simp add: char_int_def)
qed

lemma dec_string_hd:
  "hd (dec_string n) \<in> set (dec_string n)"
  by (rule hd_in_set) simp

lemma stoi_dec_string_value:
  "stoi 10 (dec_string n) = (if in_int_range (int n) then Inr (int n) else Inl OutOfRange)"
proof -
  let ?s = "dec_string n" and ?h = "hd (dec_string n)"
  have h: "48 \<le> (of_char ?h :: nat)" "(of_char ?h :: nat) \<le> 57"
    using dec_string_codes [OF dec_string_hd] by auto
  have "\<not> is_space ?h" using h by (simp add: is_space_def Let_def)
  then have s1: "dropWhile is_space ?s = ?s"
    by (cases ?s) auto
  have sign: "?h \<noteq> CHR ''-''" "?h \<noteq> CHR ''+''"
    using h by auto
  have ds: "takeWhile (\<lambda>c. digit_val c < 10) ?s = ?s"
    by (simp add: takeWhile_eq_all_conv dec_string_digit_val)
  show ?thesis
    using sign by (simp add: stoi_def Let_def s1 skip_hex_prefix_def ds)
qed

lemma stoi_dec_string [cpp_lib]:
  "in_int_range (int n) \<Longrightarrow> stoi 10 (dec_string n) = Inr (int n)"
  by (simp add: stoi_dec_string_value)

lemma stoi_to_string [cpp_lib]:
  "0 \<le> i \<Longrightarrow> in_int_range i \<Longrightarrow> stoi 10 (to_string i) = Inr i"
  using stoi_dec_string [of "nat i"] by (simp add: to_string_def)

lemma stoi_in_range: "stoi b s = Inr v \<Longrightarrow> in_int_range v"
  by (simp add: stoi_def Let_def split: if_splits)

lemma dec_string_inj: "dec_string m = dec_string n \<Longrightarrow> m = n"
proof -
  assume "dec_string m = dec_string n"
  then have "value_of 10 (dec_string m) = value_of 10 (dec_string n)" by (rule arg_cong)
  then show ?thesis by (simp only: value_of_dec_string of_nat_eq_iff)
qed

lemma dec_string_not_minus: "dec_string n \<noteq> CHR ''-'' # s" "CHR ''-'' # s \<noteq> dec_string n"
proof -
  have "CHR ''-'' \<notin> set (dec_string n)" using dec_string_codes by fastforce
  then show "dec_string n \<noteq> CHR ''-'' # s" "CHR ''-'' # s \<noteq> dec_string n"
    by (metis list.set_intros(1))+
qed

lemma to_string_inj: "to_string i = to_string j \<longleftrightarrow> i = j"
proof
  assume eq: "to_string i = to_string j"
  show "i = j"
    using eq dec_string_not_minus
    by (cases "i < 0"; cases "j < 0") (auto simp: to_string_def dest!: dec_string_inj)
qed simp

end
