(* ===== verification/StdMap.thy ===== *)
theory StdMap
  imports CppString "HOL-Library.AList"
begin

text \<open>
  The two containers the program keys by strings.

  \<^item> \<open>std::map\<close> (request and response headers, form fields) is iterated in key order, and
    that order is visible: it is the order of the headers on the wire. It is the list of
    its entries, sorted by key (\<open>smap\<close>); \<open>std::string\<close> compares byte by byte as unsigned
    values, which is the order of \<open>Char_ord\<close> and \<open>List_Lexorder\<close>.
  \<^item> \<open>std::unordered_map\<close> (the configuration and the dispatch table) has no specified
    iteration order. It is the list of its entries in the order of insertion (\<open>umap\<close>), and
    every definition that iterates over one takes the order as a parameter \<open>it\<close>, with
    \<open>iteration it\<close> (the keys are permuted, nothing else) as the named hypothesis.

  Both implement the interface \<open>assoc_store\<close>; the sorted one also \<open>ordered_store\<close>, where a
  store is determined by what it returns.
\<close>

subsection \<open>The interface\<close>

locale assoc_store =
  fixes emp :: "'m"
    and put :: "'k \<Rightarrow> 'v \<Rightarrow> 'm \<Rightarrow> 'm"
    and get :: "'m \<Rightarrow> 'k \<Rightarrow> 'v option"
    and entries :: "'m \<Rightarrow> ('k \<times> 'v) list"
    and inv :: "'m \<Rightarrow> bool"
  assumes get_emp: "get emp = (\<lambda>_. None)"
    and get_put: "inv m \<Longrightarrow> get (put k v m) = (get m)(k \<mapsto> v)"
    and inv_emp: "inv emp"
    and inv_put: "inv m \<Longrightarrow> inv (put k v m)"
    and get_entries: "inv m \<Longrightarrow> get m = map_of (entries m)"
    and entries_distinct: "inv m \<Longrightarrow> distinct (map fst (entries m))"
begin

lemma inv_fold: "inv m \<Longrightarrow> inv (fold (\<lambda>(k, v). put k v) kvs m)"
  by (induction kvs arbitrary: m) (auto intro: inv_put)

lemma get_fold:
  "inv m \<Longrightarrow> get (fold (\<lambda>(k, v). put k v) kvs m) = get m ++ map_of (rev kvs)"
proof (induction kvs arbitrary: m)
  case Nil
  then show ?case by simp
next
  case (Cons kv kvs)
  then show ?case by (cases kv) (simp add: get_put inv_put map_add_def fun_eq_iff split: option.splits)
qed

lemma get_fold_emp: "get (fold (\<lambda>(k, v). put k v) kvs emp) = map_of (rev kvs)"
  by (simp add: get_fold inv_emp get_emp map_add_def fun_eq_iff split: option.splits)

text \<open>Storing one after the other what a store lists gives a store that returns the same.\<close>

lemma get_fold_entries:
  assumes "inv m"
  shows "get (fold (\<lambda>(k, v). put k v) (entries m) emp) = get m"
proof -
  have "map_of (rev (entries m)) = map_of (entries m)"
    using entries_distinct [OF assms] by (subst map_of_inject_set) (simp_all add: rev_map [symmetric])
  with assms show ?thesis by (simp add: get_fold_emp get_entries)
qed

end

locale ordered_store = assoc_store +
  assumes extensional: "inv m \<Longrightarrow> inv n \<Longrightarrow> get m = get n \<Longrightarrow> m = n"
begin

lemma fold_entries: "inv m \<Longrightarrow> fold (\<lambda>(k, v). put k v) (entries m) emp = m"
  by (rule extensional) (simp_all add: inv_fold inv_emp get_fold_entries)

lemma fold_order_irrelevant:
  "map_of (rev xs) = map_of (rev ys) \<Longrightarrow>
   fold (\<lambda>(k, v). put k v) xs emp = fold (\<lambda>(k, v). put k v) ys emp"
  by (rule extensional) (simp_all add: inv_fold inv_emp get_fold_emp)

end

subsection \<open>\<open>std::map\<close>: entries sorted by key\<close>

type_synonym smap = "(string \<times> string) list"

fun map_put :: "'k :: linorder \<Rightarrow> 'v \<Rightarrow> ('k \<times> 'v) list \<Rightarrow> ('k \<times> 'v) list" where
  "map_put k v [] = [(k, v)]"
| "map_put k v ((k', v') # m) =
     (if k = k' then (k, v) # m
      else if k < k' then (k, v) # (k', v') # m
      else (k', v') # map_put k v m)"

definition map_ok :: "('k :: linorder \<times> 'v) list \<Rightarrow> bool" where
  "map_ok m \<longleftrightarrow> sorted_wrt (<) (map fst m)"

text \<open>\<open>m[k]\<close> on a non-const map: a missing key is inserted with an empty value.\<close>

definition map_index :: "string \<Rightarrow> smap \<Rightarrow> string \<times> smap" where
  "map_index k m = (case map_of m k of Some v \<Rightarrow> (v, m) | None \<Rightarrow> ([], map_put k [] m))"

lemma map_put_keys: "fst ` set (map_put k v m) = insert k (fst ` set m)"
  by (induction k v m rule: map_put.induct) auto

lemma map_of_map_put [simp]: "map_of (map_put k v m) = (map_of m)(k \<mapsto> v)"
  by (induction k v m rule: map_put.induct) (auto simp: fun_eq_iff)

lemma map_ok_put: "map_ok m \<Longrightarrow> map_ok (map_put k v m)"
  unfolding map_ok_def
proof (induction k v m rule: map_put.induct)
  case (1 k v)
  then show ?case by simp
next
  case (2 k v k' v' m)
  then show ?case using map_put_keys [of k v m] by (auto simp: image_iff)
qed

lemma map_ok_distinct: "map_ok m \<Longrightarrow> distinct (map fst m)"
  unfolding map_ok_def using strict_sorted_iff by blast

lemma map_ok_Nil [simp]: "map_ok []"
  by (simp add: map_ok_def)

lemma map_ok_extensional:
  assumes "map_ok m" "map_ok n" "map_of m = map_of n"
  shows "m = n"
proof -
  have d: "distinct (map fst m)" "distinct (map fst n)"
    using assms(1,2) by (simp_all add: map_ok_distinct)
  then have "set m = set n"
    using assms(3) by (simp add: map_of_inject_set)
  moreover have "sorted (map fst m)" "sorted (map fst n)"
    using assms(1,2) unfolding map_ok_def by (auto simp: strict_sorted_iff)
  moreover have "inj_on fst (set m \<union> set n)"
    using d \<open>set m = set n\<close> by (simp add: distinct_map)
  ultimately show ?thesis
    using d by (intro map_sorted_distinct_set_unique [of fst]) auto
qed

interpretation sm: ordered_store "[]" "map_put :: 'k :: linorder \<Rightarrow> 'v \<Rightarrow> _" map_of "\<lambda>m. m" map_ok
  by unfold_locales (auto simp: map_ok_put map_ok_distinct intro: map_ok_extensional)

subsection \<open>\<open>std::unordered_map\<close>: entries in insertion order\<close>

definition umap_put :: "'k \<Rightarrow> 'v \<Rightarrow> ('k \<times> 'v) list \<Rightarrow> ('k \<times> 'v) list" where
  "umap_put k v m = AList.update k v m"

definition umap_ok :: "('k \<times> 'v) list \<Rightarrow> bool" where
  "umap_ok m \<longleftrightarrow> distinct (map fst m)"

lemma umap_put_keys: "set (map fst (umap_put k v m)) = insert k (set (map fst m))"
  by (simp add: umap_put_def dom_update)

lemma umap_ok_put: "umap_ok m \<Longrightarrow> umap_ok (umap_put k v m)"
  unfolding umap_ok_def umap_put_def by (rule distinct_update)

lemma map_of_umap_put [simp]: "map_of (umap_put k v m) = (map_of m)(k \<mapsto> v)"
  unfolding umap_put_def by (rule update_conv')

interpretation um: assoc_store "[]" "umap_put :: 'k \<Rightarrow> 'v \<Rightarrow> _" map_of "\<lambda>m. m" umap_ok
  by unfold_locales (simp_all add: umap_ok_put, simp_all add: umap_ok_def)

text \<open>An \<open>unordered_set\<close> is the list of its elements, without repetition.\<close>

definition uset_insert :: "'a \<Rightarrow> 'a list \<Rightarrow> 'a list" where
  "uset_insert x xs = (if x \<in> set xs then xs else xs @ [x])"

lemma set_uset_insert [simp]: "set (uset_insert x xs) = insert x (set xs)"
  by (auto simp: uset_insert_def)

lemma distinct_uset_insert [simp]: "distinct xs \<Longrightarrow> distinct (uset_insert x xs)"
  by (simp add: uset_insert_def)

text \<open>The order in which a hash container is iterated.\<close>

definition iteration :: "(string list \<Rightarrow> string list) \<Rightarrow> bool" where
  "iteration it \<longleftrightarrow> (\<forall>ks. distinct ks \<longrightarrow> set (it ks) = set ks \<and> distinct (it ks))"

lemma iterationD:
  "iteration it \<Longrightarrow> distinct ks \<Longrightarrow> set (it ks) = set ks"
  "iteration it \<Longrightarrow> distinct ks \<Longrightarrow> distinct (it ks)"
  by (simp_all add: iteration_def)

lemma iteration_rev: "iteration rev"
  by (simp add: iteration_def)

lemma iteration_id: "iteration (\<lambda>ks. ks)"
  by (simp add: iteration_def)

end
