(* ===== verification/RequestParser.thy ===== *)
theory RequestParser
  imports HttpMessage
begin

text \<open>
  The request parser: \<open>request_builder\<close> (include/request_builder.h) and \<open>request_parser\<close>
  (include/request_parser.h, src/request_parser.cc), the byte-at-a-time state machine that
  reads a client's request.

  \<open>rq_consume\<close> is \<open>request_parser::consume\<close>; its \<open>switch\<close> is split by the part of the
  message the state belongs to (\<open>rq_consume_line\<close>, \<open>rq_consume_header\<close>, \<open>rq_consume_body\<close>), and
  the end of a header value is \<open>rq_end_header\<close>. \<open>rq_parse\<close> is the template \<open>parse\<close>: it returns the
  verdict, the state and the bytes it left. \<open>rq_build_request\<close> is \<open>build_request\<close>.

  \<open>headers.back()\<close> on an empty vector would be undefined; \<open>map_last\<close> leaves the vector as it is,
  and the invariant \<open>rq_ok\<close> shows that no reachable state gets there.
\<close>

subsection \<open>State\<close>

datatype rq_state =
    Rq_method_start | Rq_method | Rq_uri
  | Rq_http_version_h | Rq_http_version_t_1 | Rq_http_version_t_2 | Rq_http_version_p
  | Rq_http_version_slash | Rq_http_version_major_start | Rq_http_version_major
  | Rq_http_version_minor_start | Rq_http_version_minor
  | Rq_expecting_newline_1 | Rq_header_line_start | Rq_header_lws | Rq_header_name
  | Rq_space_before_header_value | Rq_header_value
  | Rq_expecting_newline_2 | Rq_expecting_newline_3 | Rq_expecting_body

record request_parser =
  rq_state :: rq_state
  rq_contentsize :: i32

record request_builder =
  rb_method :: string
  rb_uri :: string
  rb_http_version_major :: i32
  rb_http_version_minor :: i32
  rb_headers :: "header list"
  rb_bodysize :: i32
  rb_body :: "char list"
  rb_fullmessage :: "char list"
  rb_keep_alive :: bool

type_synonym rq_machine = "request_parser \<times> request_builder"

definition new_request_parser :: request_parser where
  "new_request_parser = \<lparr>rq_state = Rq_method_start, rq_contentsize = 0\<rparr>"

definition rq_reset :: "request_parser \<Rightarrow> request_parser" where
  "rq_reset p = p\<lparr>rq_state := Rq_method_start\<rparr>"

text \<open>
  A new builder. The version numbers and the body size have no initial value in a
  default-initialised builder; they are written before they are read, so any value would do.
\<close>

definition new_request_builder :: request_builder where
  "new_request_builder = \<lparr>rb_method = [], rb_uri = [], rb_http_version_major = 0,
     rb_http_version_minor = 0, rb_headers = [], rb_bodysize = 0, rb_body = [],
     rb_fullmessage = [], rb_keep_alive = False\<rparr>"

definition map_last :: "('a \<Rightarrow> 'a) \<Rightarrow> 'a list \<Rightarrow> 'a list" where
  "map_last f xs = (if xs = [] then [] else butlast xs @ [f (last xs)])"

lemma map_last_snoc [simp]: "map_last f (xs @ [x]) = xs @ [f x]"
  by (simp add: map_last_def)

text \<open>\<open>v.reserve(n)\<close> converts the \<open>int\<close> to \<open>size_t\<close> and throws above \<open>max_size()\<close>.\<close>

definition reserve_throws :: "int \<Rightarrow> bool" where
  "reserve_throws n \<longleftrightarrow> 2 ^ 63 - 1 < n mod 2 ^ 64"

lemma reserve_throws_iff: "in_int_range n \<Longrightarrow> reserve_throws n \<longleftrightarrow> n < 0"
proof (cases "n < 0")
  case True
  assume r: "in_int_range n"
  have "(n + 2 ^ 64) mod 2 ^ 64 = n + 2 ^ 64"
    by (rule mod_pos_pos_trivial) (use True r in \<open>auto simp: in_int_range_def INT_MIN_def\<close>)
  then show ?thesis
    using True r by (simp add: reserve_throws_def in_int_range_def INT_MIN_def)
next
  case False
  assume "in_int_range n"
  then have "n mod 2 ^ 64 = n"
    using False by (intro mod_pos_pos_trivial) (auto simp: in_int_range_def INT_MAX_def)
  then show ?thesis
    using False \<open>in_int_range n\<close> by (simp add: reserve_throws_def in_int_range_def INT_MAX_def)
qed

lemma map_last_Nil [simp]: "map_last f xs = [] \<longleftrightarrow> xs = []"
  by (simp add: map_last_def)

lemma map_last_parts [simp]:
  "butlast (map_last f xs) = butlast xs"
  "xs \<noteq> [] \<Longrightarrow> last (map_last f xs) = f (last xs)"
  by (simp_all add: map_last_def)

lemma set_map_last: "xs \<noteq> [] \<Longrightarrow> set (map_last f xs) = insert (f (last xs)) (set (butlast xs))"
  by (simp add: map_last_def)

subsection \<open>One byte\<close>

abbreviation rq_goto :: "rq_state \<Rightarrow> request_parser \<Rightarrow> request_parser" where
  "rq_goto st p \<equiv> p\<lparr>rq_state := st\<rparr>"

abbreviation ascii_digit :: "char \<Rightarrow> i32" where
  "ascii_digit c \<equiv> word_of_int (char_int c)"

definition rq_consume_line ::
  "request_parser \<Rightarrow> request_builder \<Rightarrow> char \<Rightarrow> result_type \<times> rq_machine" where
  "rq_consume_line p req input =
     (let ic = char_int input;
          next_if = (\<lambda>ch st. if input = ch then (Indeterminate, rq_goto st p, req) else (Bad, p, req))
      in case rq_state p of
       Rq_method_start \<Rightarrow>
         if \<not> is_char ic \<or> is_ctl ic \<or> is_tspecial ic then (Bad, p, req)
         else (Indeterminate, rq_goto Rq_method p, req\<lparr>rb_method := rb_method req @ [input]\<rparr>)
     | Rq_method \<Rightarrow>
         if input = CHR '' '' then (Indeterminate, rq_goto Rq_uri p, req)
         else if \<not> is_char ic \<or> is_ctl ic \<or> is_tspecial ic then (Bad, p, req)
         else (Indeterminate, p, req\<lparr>rb_method := rb_method req @ [input]\<rparr>)
     | Rq_uri \<Rightarrow>
         if input = CHR '' '' then (Indeterminate, rq_goto Rq_http_version_h p, req)
         else if is_ctl ic then (Bad, p, req)
         else (Indeterminate, p, req\<lparr>rb_uri := rb_uri req @ [input]\<rparr>)
     | Rq_http_version_h \<Rightarrow> next_if CHR ''H'' Rq_http_version_t_1
     | Rq_http_version_t_1 \<Rightarrow> next_if CHR ''T'' Rq_http_version_t_2
     | Rq_http_version_t_2 \<Rightarrow> next_if CHR ''T'' Rq_http_version_p
     | Rq_http_version_p \<Rightarrow> next_if CHR ''P'' Rq_http_version_slash
     | Rq_http_version_slash \<Rightarrow>
         if input = CHR ''/'' then
           (Indeterminate, rq_goto Rq_http_version_major_start p,
            req\<lparr>rb_http_version_major := 0, rb_http_version_minor := 0\<rparr>)
         else (Bad, p, req)
     | Rq_http_version_major_start \<Rightarrow>
         if is_digit ic then
           (Indeterminate, rq_goto Rq_http_version_major p,
            req\<lparr>rb_http_version_major :=
                  rb_http_version_major req * 10 + ascii_digit input - ascii_digit CHR ''0''\<rparr>)
         else (Bad, p, req)
     | Rq_http_version_major \<Rightarrow>
         if input = CHR ''.'' then (Indeterminate, rq_goto Rq_http_version_minor_start p, req)
         else if is_digit ic then
           (Indeterminate, p,
            req\<lparr>rb_http_version_major :=
                  rb_http_version_major req * 10 + ascii_digit input - ascii_digit CHR ''0''\<rparr>)
         else (Bad, p, req)
     | Rq_http_version_minor_start \<Rightarrow>
         if is_digit ic then
           (Indeterminate, rq_goto Rq_http_version_minor p,
            req\<lparr>rb_http_version_minor :=
                  rb_http_version_minor req * 10 + ascii_digit input - ascii_digit CHR ''0''\<rparr>)
         else (Bad, p, req)
     | Rq_http_version_minor \<Rightarrow>
         if input = CR then (Indeterminate, rq_goto Rq_expecting_newline_1 p, req)
         else if is_digit ic then
           (Indeterminate, p,
            req\<lparr>rb_http_version_minor :=
                  rb_http_version_minor req * 10 + ascii_digit input - ascii_digit CHR ''0''\<rparr>)
         else (Bad, p, req)
     | Rq_expecting_newline_1 \<Rightarrow> next_if LF Rq_header_line_start
     | _ \<Rightarrow> (Bad, p, req))"

text \<open>The carriage return that ends a header value.\<close>

definition rq_end_header ::
  "request_parser \<Rightarrow> request_builder \<Rightarrow> result_type \<times> rq_machine" where
  "rq_end_header p req =
     (let h = last (rb_headers req);
          finish = (\<lambda>p req.
            (Indeterminate, rq_goto Rq_expecting_newline_2 p,
             if strcasecmp_eq (h_name h) ''Connection'' \<and> strcasecmp_eq (h_value h) ''Keep-Alive''
             then req\<lparr>rb_keep_alive := True\<rparr> else req))
      in if strcasecmp_eq (h_name h) ''Content-Length'' then
           case stoi 10 (h_value h) of
             Inl e \<Rightarrow> (Bad, p, req)
           | Inr n \<Rightarrow>
               let req' = req\<lparr>rb_bodysize := word_of_int n\<rparr>;
                   p' = p\<lparr>rq_contentsize := word_of_int n\<rparr>
               in if reserve_throws (sint (rb_bodysize req')) then (Bad, p', req')
                  else finish p' req'
         else finish p req)"

definition rq_consume_header ::
  "request_parser \<Rightarrow> request_builder \<Rightarrow> char \<Rightarrow> result_type \<times> rq_machine" where
  "rq_consume_header p req input =
     (let ic = char_int input;
          add_value = req\<lparr>rb_headers :=
            map_last (\<lambda>h. h\<lparr>h_value := h_value h @ [input]\<rparr>) (rb_headers req)\<rparr>
      in case rq_state p of
       Rq_header_line_start \<Rightarrow>
         if input = CR then (Indeterminate, rq_goto Rq_expecting_newline_3 p, req)
         else if rb_headers req \<noteq> [] \<and> (input = CHR '' '' \<or> input = TAB) then
           (Indeterminate, rq_goto Rq_header_lws p, req)
         else if \<not> is_char ic \<or> is_ctl ic \<or> is_tspecial ic then (Bad, p, req)
         else (Indeterminate, rq_goto Rq_header_name p,
               req\<lparr>rb_headers := rb_headers req @ [\<lparr>h_name = [input], h_value = []\<rparr>]\<rparr>)
     | Rq_header_lws \<Rightarrow>
         if input = CR then (Indeterminate, rq_goto Rq_expecting_newline_2 p, req)
         else if input = CHR '' '' \<or> input = TAB then (Indeterminate, p, req)
         else if is_ctl ic then (Bad, p, req)
         else (Indeterminate, rq_goto Rq_header_value p, add_value)
     | Rq_header_name \<Rightarrow>
         if input = CHR '':'' then (Indeterminate, rq_goto Rq_space_before_header_value p, req)
         else if \<not> is_char ic \<or> is_ctl ic \<or> is_tspecial ic then (Bad, p, req)
         else (Indeterminate, p,
               req\<lparr>rb_headers :=
                     map_last (\<lambda>h. h\<lparr>h_name := h_name h @ [input]\<rparr>) (rb_headers req)\<rparr>)
     | Rq_space_before_header_value \<Rightarrow>
         if input = CHR '' '' then (Indeterminate, rq_goto Rq_header_value p, req)
         else (Bad, p, req)
     | Rq_header_value \<Rightarrow>
         if input = CR then rq_end_header p req
         else if is_ctl ic then (Bad, p, req)
         else (Indeterminate, p, add_value)
     | Rq_expecting_newline_2 \<Rightarrow>
         if input = LF then (Indeterminate, rq_goto Rq_header_line_start p, req)
         else (Bad, p, req)
     | _ \<Rightarrow> (Bad, p, req))"

definition rq_consume_body ::
  "request_parser \<Rightarrow> request_builder \<Rightarrow> char \<Rightarrow> result_type \<times> rq_machine" where
  "rq_consume_body p req input =
     (case rq_state p of
       Rq_expecting_newline_3 \<Rightarrow>
         if rq_contentsize p = 0 then (if input = LF then Good else Bad, p, req)
         else (Indeterminate, rq_goto Rq_expecting_body p, req)
     | Rq_expecting_body \<Rightarrow>
         let p' = p\<lparr>rq_contentsize := rq_contentsize p - 1\<rparr>;
             req' = req\<lparr>rb_body := rb_body req @ [input]\<rparr>
         in (if rq_contentsize p' = 0 then Good else Indeterminate, p', req')
     | _ \<Rightarrow> (Bad, p, req))"

fun rq_consume :: "rq_machine \<Rightarrow> char \<Rightarrow> result_type \<times> rq_machine" where
  "rq_consume (p, req) input =
     (let req = req\<lparr>rb_fullmessage := rb_fullmessage req @ [input]\<rparr>
      in if rq_state p \<in> {Rq_header_line_start, Rq_header_lws, Rq_header_name,
              Rq_space_before_header_value, Rq_header_value, Rq_expecting_newline_2}
         then rq_consume_header p req input
         else if rq_state p \<in> {Rq_expecting_newline_3, Rq_expecting_body}
         then rq_consume_body p req input
         else rq_consume_line p req input)"

fun rq_parse :: "rq_machine \<Rightarrow> char list \<Rightarrow> result_type \<times> rq_machine \<times> char list" where
  "rq_parse s [] = (Indeterminate, s, [])"
| "rq_parse s (c # rest) =
     (case rq_consume s c of (result, s') \<Rightarrow>
        if (result = Good \<and> rest = []) \<or> result = Bad then (result, s', rest)
        else if result = Good \<and> rest \<noteq> [] then (Bad, s', rest)
        else rq_parse s' rest)"

subsection \<open>The request a builder holds\<close>

text \<open>\<open>junk\<close> is what the uninitialised field \<open>method_\<close> holds.\<close>

definition method_of_name :: "MethodEnum option \<Rightarrow> string \<Rightarrow> MethodEnum option" where
  "method_of_name junk m =
     (if m = ''GET'' then Some GET
      else if m = ''POST'' then Some POST
      else if m = ''DELETE'' then Some DELETE
      else if m = ''HEAD'' then Some HEAD
      else if m = ''PUT'' then Some PUT
      else if m = ''CONNECT'' then Some CONNECT
      else if m = ''OPTIONS'' then Some OPTIONS
      else if m = ''TRACE'' then Some TRACE
      else junk)"

definition rq_build_request :: "MethodEnum option \<Rightarrow> request_builder \<Rightarrow> Request" where
  "rq_build_request junk b =
     \<lparr>method_of = method_of_name junk (rb_method b),
      uri_of = rb_uri b,
      version_of = ''HTTP/'' @ to_string (sint (rb_http_version_major b)) @ ''.''
                   @ to_string (sint (rb_http_version_minor b)),
      headers_of = assign_headers (rb_headers b),
      body_of = rb_body b\<rparr>"

subsection \<open>Every byte is logged, the shape of the builder is kept\<close>

lemmas rq_step_defs = rq_consume_line_def rq_consume_header_def rq_consume_body_def
  rq_end_header_def

lemma rq_consume_line_log:
  "rb_fullmessage (snd (snd (rq_consume_line p b c))) = rb_fullmessage b"
  by (cases "rq_state p"; simp add: rq_consume_line_def Let_def)

lemma rq_end_header_log: "rb_fullmessage (snd (snd (rq_end_header p b))) = rb_fullmessage b"
  by (simp add: rq_end_header_def Let_def split: sum.split)

lemma rq_consume_header_log:
  "rb_fullmessage (snd (snd (rq_consume_header p b c))) = rb_fullmessage b"
  by (cases "rq_state p"; simp add: rq_consume_header_def rq_end_header_log Let_def)

lemma rq_consume_body_log:
  "rb_fullmessage (snd (snd (rq_consume_body p b c))) = rb_fullmessage b"
  by (cases "rq_state p"; simp add: rq_consume_body_def Let_def)

lemma rq_consume_log:
  "rb_fullmessage (snd (snd (rq_consume s c))) = rb_fullmessage (snd s) @ [c]"
  by (cases s) (simp add: Let_def rq_consume_line_log rq_consume_header_log rq_consume_body_log)

text \<open>The size the last \<open>Content-Length\<close> header declares, 0 without one.\<close>

definition is_content_length :: "header \<Rightarrow> bool" where
  "is_content_length h \<longleftrightarrow> strcasecmp_eq (h_name h) ''Content-Length''"

definition declared_length :: "header list \<Rightarrow> i32" where
  "declared_length hs = foldl (\<lambda>n h. if is_content_length h
     then (case stoi 10 (h_value h) of Inr v \<Rightarrow> word_of_int v | Inl e \<Rightarrow> n) else n) 0 hs"

lemma declared_length_Nil [simp]: "declared_length [] = 0"
  by (simp add: declared_length_def)

lemma declared_length_last:
  "hs \<noteq> [] \<Longrightarrow> declared_length hs = (if is_content_length (last hs)
     then (case stoi 10 (h_value (last hs)) of Inr v \<Rightarrow> word_of_int v
           | Inl e \<Rightarrow> declared_length (butlast hs))
     else declared_length (butlast hs))"
  by (cases hs rule: rev_cases) (simp_all add: declared_length_def split: sum.split)

text \<open>
  The invariant of the machine while it asks for more input: what it has collected is in the
  grammar; the states inside a header have a header to work on; the content counter is never
  negative and is the declared size of the headers that are complete; in the body, the bytes
  read and the bytes missing add up to the declared size.
\<close>

definition rq_counter_ok :: "request_parser \<Rightarrow> request_builder \<Rightarrow> bool" where
  "rq_counter_ok p b \<longleftrightarrow>
     0 \<le> sint (rq_contentsize p) \<and>
     (if rq_state p = Rq_expecting_body then
        0 < sint (rq_contentsize p) \<and>
        int (length (rb_body b)) + sint (rq_contentsize p) = sint (declared_length (rb_headers b))
      else rb_body b = [] \<and>
        (if rq_state p \<in> {Rq_header_name, Rq_space_before_header_value} then
           rq_contentsize p = declared_length (butlast (rb_headers b))
         else if rq_state p = Rq_header_value then
           is_content_length (last (rb_headers b))
           \<or> rq_contentsize p = declared_length (butlast (rb_headers b))
         else rq_contentsize p = declared_length (rb_headers b)))"

definition rq_text_ok :: "request_parser \<Rightarrow> request_builder \<Rightarrow> bool" where
  "rq_text_ok p b \<longleftrightarrow>
     (if rq_state p = Rq_method_start then rb_method b = [] else token (rb_method b)) \<and>
     uri_text (rb_uri b) \<and>
     (\<forall>h\<in>set (rb_headers b). header_ok h) \<and>
     (rq_state p \<in> {Rq_header_lws, Rq_header_name, Rq_space_before_header_value, Rq_header_value}
        \<longrightarrow> rb_headers b \<noteq> []) \<and>
     (rq_state p \<in> {Rq_method_start, Rq_method, Rq_uri, Rq_http_version_h, Rq_http_version_t_1,
        Rq_http_version_t_2, Rq_http_version_p, Rq_http_version_slash,
        Rq_http_version_major_start, Rq_http_version_major, Rq_http_version_minor_start,
        Rq_http_version_minor, Rq_expecting_newline_1} \<longrightarrow> rb_headers b = [])"

definition rq_ok :: "rq_machine \<Rightarrow> bool" where
  "rq_ok s \<longleftrightarrow> rq_text_ok (fst s) (snd s) \<and> rq_counter_ok (fst s) (snd s)"

lemma rq_ok_new: "rq_ok (new_request_parser, new_request_builder)"
  by (simp add: rq_ok_def rq_text_ok_def rq_counter_ok_def new_request_parser_def
      new_request_builder_def uri_text_def)

lemma rq_ok_fullmessage [simp]:
  "rq_text_ok p (b\<lparr>rb_fullmessage := m\<rparr>) = rq_text_ok p b"
  "rq_counter_ok p (b\<lparr>rb_fullmessage := m\<rparr>) = rq_counter_ok p b"
  by (simp_all add: rq_text_ok_def rq_counter_ok_def)

lemma sint_dec: "0 < sint (w :: i32) \<Longrightarrow> sint (w - 1) = sint w - 1"
proof -
  assume pos: "0 < sint w"
  have "w - 1 = word_of_int (sint w - 1)"
    by (simp add: wi_hom_sub [symmetric])
  moreover have "in_int_range (sint w - 1)"
    using pos sint_i32_range [of w] by (simp add: in_int_range_def INT_MIN_def)
  ultimately show ?thesis
    by (metis sint_of_int_i32)
qed

abbreviation rq_all :: "(request_parser \<Rightarrow> request_builder \<Rightarrow> bool) \<Rightarrow> rq_machine \<Rightarrow> bool" where
  "rq_all P \<equiv> (\<lambda>s. P (fst s) (snd s))"

lemma rq_line_text: "rq_text_ok p b \<Longrightarrow> keeps (rq_all rq_text_ok) (rq_consume_line p b c)"
  by (cases "rq_state p";
      simp add: rq_consume_line_def Let_def rq_text_ok_def token_snoc is_ctl_text token_char_tests)

lemma rq_line_counter: "rq_text_ok p b \<Longrightarrow> rq_counter_ok p b \<Longrightarrow>
    rq_state p \<notin> {Rq_expecting_newline_3, Rq_expecting_body} \<Longrightarrow>
    keeps (rq_all rq_counter_ok) (rq_consume_line p b c)"
  by (cases "rq_state p"; simp add: rq_consume_line_def Let_def rq_counter_ok_def rq_text_ok_def)

lemma header_ok_add [byte_class]:
  "header_ok \<lparr>h_name = [c], h_value = []\<rparr> \<longleftrightarrow> token_char c"
  "header_ok h \<Longrightarrow> header_ok (h\<lparr>h_name := h_name h @ [c]\<rparr>) \<longleftrightarrow> token_char c"
  "header_ok h \<Longrightarrow> header_ok (h\<lparr>h_value := h_value h @ [c]\<rparr>) \<longleftrightarrow> text_char c"
  by (simp_all add: header_ok_def byte_class)

lemma headers_ok_add [byte_class]:
  assumes "\<forall>h\<in>set hs. header_ok h" "hs \<noteq> []"
  shows "(\<forall>h\<in>set (map_last (\<lambda>h. h\<lparr>h_name := h_name h @ [c]\<rparr>) hs). header_ok h) \<longleftrightarrow> token_char c"
    and "(\<forall>h\<in>set (map_last (\<lambda>h. h\<lparr>h_value := h_value h @ [c]\<rparr>) hs). header_ok h) \<longleftrightarrow> text_char c"
  using assms header_ok_add(2,3) [of "last hs" c]
  by (auto simp: set_map_last dest: in_set_butlastD)

lemma rq_end_header_text:
  "rq_text_ok p b \<Longrightarrow> rq_state p = Rq_header_value \<Longrightarrow> keeps (rq_all rq_text_ok) (rq_end_header p b)"
  by (simp add: rq_end_header_def Let_def rq_text_ok_def split: sum.split)

lemma rq_header_text: "rq_text_ok p b \<Longrightarrow> keeps (rq_all rq_text_ok) (rq_consume_header p b c)"
  apply (cases "rq_state p")
  apply (simp_all add: rq_consume_header_def Let_def rq_end_header_text)
  apply (simp_all add: rq_text_ok_def is_ctl_text headers_ok_add header_ok_add token_char_tests)
  done

lemma declared_length_skip:
  "hs \<noteq> [] \<Longrightarrow> \<not> is_content_length (last hs) \<Longrightarrow> declared_length hs = declared_length (butlast hs)"
  by (simp add: declared_length_last)

lemma is_content_length_value [simp]:
  "is_content_length (h\<lparr>h_value := v\<rparr>) = is_content_length h"
  by (simp add: is_content_length_def)

lemma rq_end_header_counter:
  assumes "rq_counter_ok p b" "rq_state p = Rq_header_value" "rb_headers b \<noteq> []"
  shows "keeps (rq_all rq_counter_ok) (rq_end_header p b)"
proof (cases "is_content_length (last (rb_headers b))")
  case False
  with assms show ?thesis
    by (auto simp: rq_end_header_def Let_def rq_counter_ok_def declared_length_skip
        is_content_length_def)
next
  case True
  show ?thesis
  proof (cases "stoi 10 (h_value (last (rb_headers b)))")
    case (Inl e)
    with True show ?thesis by (simp add: rq_end_header_def Let_def is_content_length_def)
  next
    case (Inr n)
    then have "in_int_range n" by (rule stoi_in_range)
    with True Inr assms show ?thesis
      by (simp add: rq_end_header_def Let_def rq_counter_ok_def declared_length_last
          is_content_length_def reserve_throws_iff sint_of_int_i32)
  qed
qed

lemma rq_header_counter:
  assumes "rq_text_ok p b" "rq_counter_ok p b"
  shows "keeps (rq_all rq_counter_ok) (rq_consume_header p b c)"
  using assms
  apply (cases "rq_state p")
  apply (simp_all add: rq_consume_header_def Let_def rq_end_header_counter rq_text_ok_def)
  apply (simp_all add: rq_counter_ok_def)
  apply (use declared_length_skip in \<open>auto\<close>)
  done

text \<open>When the verdict is \<open>Good\<close>, the message is complete.\<close>

definition rq_complete :: "request_parser \<Rightarrow> request_builder \<Rightarrow> bool" where
  "rq_complete p b \<longleftrightarrow>
     rq_contentsize p = 0 \<and> token (rb_method b) \<and> uri_text (rb_uri b) \<and>
     (\<forall>h\<in>set (rb_headers b). header_ok h) \<and>
     int (length (rb_body b)) = sint (declared_length (rb_headers b))"

definition rq_outcome_ok :: "result_type \<times> rq_machine \<Rightarrow> bool" where
  "rq_outcome_ok out \<longleftrightarrow> (case out of
     (Bad, s) \<Rightarrow> True | (Indeterminate, s) \<Rightarrow> rq_ok s | (Good, p, b) \<Rightarrow> rq_complete p b)"

lemma rq_outcome_simps [simp]:
  "rq_outcome_ok (Bad, s)" "rq_outcome_ok (Indeterminate, s) = rq_ok s"
  "rq_outcome_ok (Good, p, b) = rq_complete p b"
  by (simp_all add: rq_outcome_ok_def)

lemma sint_i32_pos: "0 \<le> sint (w :: i32) \<Longrightarrow> w \<noteq> 0 \<Longrightarrow> 0 < sint w"
  by (metis order_le_less signed_eq_0_iff)

lemma rq_body_outcome:
  assumes "rq_text_ok p b" "rq_counter_ok p b"
  shows "rq_outcome_ok (rq_consume_body p b c)"
proof (cases "rq_state p")
  case Rq_expecting_newline_3
  with assms show ?thesis
    by (auto simp: rq_consume_body_def rq_ok_def rq_text_ok_def rq_counter_ok_def
        rq_complete_def intro: sint_i32_pos)
next
  case Rq_expecting_body
  with assms have "0 < sint (rq_contentsize p)"
    by (simp add: rq_counter_ok_def)
  then have dec: "sint (rq_contentsize p - 1) = sint (rq_contentsize p) - 1"
    by (rule sint_dec)
  have more: "rq_contentsize p \<noteq> 1 \<Longrightarrow> 1 < sint (rq_contentsize p)"
    using sint_i32_pos [of "rq_contentsize p - 1"] dec \<open>0 < sint (rq_contentsize p)\<close> by simp
  show ?thesis
    using assms Rq_expecting_body dec more \<open>0 < sint (rq_contentsize p)\<close>
    by (auto simp: rq_consume_body_def Let_def rq_ok_def rq_text_ok_def rq_counter_ok_def
        rq_complete_def intro: sint_i32_pos)
qed (simp_all add: rq_consume_body_def)

lemma keeps_no_Good:
  "fst out \<noteq> Good \<Longrightarrow> keeps (rq_all rq_text_ok) out \<Longrightarrow> keeps (rq_all rq_counter_ok) out \<Longrightarrow>
   rq_outcome_ok out"
  by (cases out; cases "fst out") (simp_all add: rq_ok_def)

lemma rq_line_not_Good: "fst (rq_consume_line p b c) \<noteq> Good"
  by (cases "rq_state p"; simp add: rq_consume_line_def Let_def)

lemma rq_header_not_Good: "fst (rq_consume_header p b c) \<noteq> Good"
  by (cases "rq_state p"; simp add: rq_consume_header_def rq_end_header_def Let_def split: sum.split)

theorem rq_consume_outcome:
  assumes "rq_ok s"
  shows "rq_outcome_ok (rq_consume s c)"
proof -
  obtain p b where s: "s = (p, b)" by (cases s)
  define b' where "b' = b\<lparr>rb_fullmessage := rb_fullmessage b @ [c]\<rparr>"
  have ok: "rq_text_ok p b'" "rq_counter_ok p b'"
    using assms by (simp_all add: rq_ok_def s b'_def)
  have "rq_outcome_ok (rq_consume_header p b' c)"
    by (rule keeps_no_Good [OF rq_header_not_Good]) (simp_all add: rq_header_text rq_header_counter ok)
  moreover have "rq_state p \<notin> {Rq_expecting_newline_3, Rq_expecting_body} \<Longrightarrow>
      rq_outcome_ok (rq_consume_line p b' c)"
    by (rule keeps_no_Good [OF rq_line_not_Good rq_line_text rq_line_counter]) (use ok in simp_all)
  ultimately show ?thesis
    using rq_body_outcome [OF ok] by (simp add: s Let_def flip: b'_def)
qed

interpretation rq: byte_machine rq_consume "\<lambda>s. rb_fullmessage (snd s)" rq_ok
proof
  show "rb_fullmessage (snd (snd (rq_consume s c))) = rb_fullmessage (snd s) @ [c]" for s c
    by (rule rq_consume_log)
  show "rq_ok s \<Longrightarrow> rq_consume s c = (Indeterminate, s') \<Longrightarrow> rq_ok s'" for s c s'
    using rq_consume_outcome [of s c] by simp
qed

subsection \<open>Whole buffers\<close>

declare rq_consume.simps [simp del]

text \<open>The machine over a buffer and over its parts.\<close>

lemma rq_parse_Indeterminate:
  "rq_parse s xs = (Indeterminate, t, rest) \<longleftrightarrow> feed rq_consume s xs = Some t \<and> rest = []"
proof (induction xs arbitrary: s)
  case Nil
  then show ?case by auto
next
  case (Cons c cs)
  obtain r s' where "rq_consume s c = (r, s')" by (cases "rq_consume s c")
  with Cons show ?case by (cases r) auto
qed

lemma rq_parse_append:
  "feed rq_consume s xs = Some t \<Longrightarrow> rq_parse s (xs @ ys) = rq_parse t ys"
proof (induction xs arbitrary: s)
  case Nil
  then show ?case by simp
next
  case (Cons c cs)
  obtain r s' where st: "rq_consume s c = (r, s')" by (cases "rq_consume s c")
  with Cons.prems have "r = Indeterminate" "feed rq_consume s' cs = Some t"
    by (simp_all split: result_type.splits)
  with st Cons.IH [of s'] show ?case by simp
qed

lemma rq_parse_Good:
  "rq_parse s xs = (Good, t, rest) \<longleftrightarrow>
   rest = [] \<and> (\<exists>ys c u. xs = ys @ [c] \<and> feed rq_consume s ys = Some u \<and> rq_consume u c = (Good, t))"
proof (induction xs arbitrary: s)
  case Nil
  then show ?case by simp
next
  case (Cons c cs)
  obtain r s' where st: "rq_consume s c = (r, s')" by (cases "rq_consume s c")
  have snoc: "(\<exists>ys d u. c # cs = ys @ [d] \<and> feed rq_consume s ys = Some u \<and> rq_consume u d = (Good, t))
      \<longleftrightarrow> (cs = [] \<and> r = Good \<and> s' = t) \<or> (r = Indeterminate \<and>
           (\<exists>ys d u. cs = ys @ [d] \<and> feed rq_consume s' ys = Some u \<and> rq_consume u d = (Good, t)))"
    (is "?L \<longleftrightarrow> ?A \<or> ?B")
  proof
    assume ?L
    then obtain ys d u where *: "c # cs = ys @ [d]" "feed rq_consume s ys = Some u"
        "rq_consume u d = (Good, t)" by blast
    show "?A \<or> ?B"
    proof (cases ys)
      case Nil
      with * st show ?thesis by simp
    next
      case (Cons y zs)
      with * st have "r = Indeterminate" "cs = zs @ [d]" "feed rq_consume s' zs = Some u"
        by (simp_all split: result_type.splits)
      with *(3) show ?thesis by blast
    qed
  next
    assume "?A \<or> ?B"
    then show ?L
    proof
      assume ?A
      with st show ?L by (intro exI [of _ "[]"] exI [of _ c] exI [of _ s]) simp
    next
      assume ?B
      then obtain ys d u where "r = Indeterminate" "cs = ys @ [d]"
        "feed rq_consume s' ys = Some u" "rq_consume u d = (Good, t)" by blast
      with st show ?L by (intro exI [of _ "c # ys"] exI [of _ d] exI [of _ u]) simp
    qed
  qed
  show ?case unfolding snoc using st Cons.IH [of s'] by (cases r) auto
qed

text \<open>
  A buffer that is parsed in two reads: as long as the first read leaves the parser wanting
  more, the cut makes no difference.
\<close>

lemma rq_parse_split:
  assumes "rq_parse s xs = (Indeterminate, t, rest)"
  shows "rq_parse s (xs @ ys) = rq_parse t ys"
  using assms by (simp add: rq_parse_Indeterminate rq_parse_append)

lemma rq_parse_Good_complete:
  assumes "rq_ok s" "rq_parse s xs = (Good, (p, b), rest)"
  shows "rest = [] \<and> rq_complete p b \<and> rb_fullmessage b = rb_fullmessage (snd s) @ xs"
proof -
  obtain ys c u where *: "rest = []" "xs = ys @ [c]" "feed rq_consume s ys = Some u"
      "rq_consume u c = (Good, p, b)"
    using assms(2) by (auto simp: rq_parse_Good)
  have "rq_ok u" using rq.feed_ok [OF *(3) assms(1)] .
  then have "rq_complete p b"
    using rq_consume_outcome [of u c] *(4) by simp
  moreover have "rb_fullmessage b = rb_fullmessage (snd u) @ [c]"
    using rq_consume_log [of u c] *(4) by simp
  ultimately show ?thesis
    using rq.feed_log [OF *(3)] * by simp
qed

subsection \<open>Reading a printed request\<close>

text \<open>
  The bytes of a request in the form both \<open>build_request_string\<close> functions print it: request
  line, one line per header, an empty line, the body.
\<close>

definition request_head :: "string \<Rightarrow> string \<Rightarrow> nat \<Rightarrow> nat \<Rightarrow> string" where
  "request_head m u major minor =
     m @ '' '' @ u @ '' HTTP/'' @ dec_string major @ ''.'' @ dec_string minor @ crlf"

abbreviation rq_at :: "rq_state \<Rightarrow> i32 \<Rightarrow> request_parser" where
  "rq_at st n \<equiv> \<lparr>rq_state = st, rq_contentsize = n\<rparr>"

lemmas rq_eval = rq_consume.simps Let_def rq_consume_line_def rq_consume_header_def rq_consume_body_def
  is_ctl_text

lemma feed_method:
  "\<forall>c\<in>set m. token_char c \<Longrightarrow> feed rq_consume (rq_at Rq_method n, b) m =
   Some (rq_at Rq_method n, b\<lparr>rb_method := rb_method b @ m, rb_fullmessage := rb_fullmessage b @ m\<rparr>)"
proof (induction m arbitrary: b)
  case Nil
  then show ?case by simp
next
  case (Cons c m)
  then have "token_char c" "c \<noteq> SP" by (auto simp: byte_class)
  then have "rq_consume (rq_at Rq_method n, b) c = (Indeterminate, rq_at Rq_method n,
      b\<lparr>rb_method := rb_method b @ [c], rb_fullmessage := rb_fullmessage b @ [c]\<rparr>)"
    by (simp add: rq_eval token_char_tests)
  with Cons show ?case by (simp add: feed_step)
qed

lemma feed_uri:
  "uri_text u \<Longrightarrow> feed rq_consume (rq_at Rq_uri n, b) u =
   Some (rq_at Rq_uri n, b\<lparr>rb_uri := rb_uri b @ u, rb_fullmessage := rb_fullmessage b @ u\<rparr>)"
proof (induction u arbitrary: b)
  case Nil
  then show ?case by simp
next
  case (Cons c u)
  then have "text_char c" "c \<noteq> SP" "uri_text u" by (auto simp: uri_text_def)
  then have "rq_consume (rq_at Rq_uri n, b) c = (Indeterminate, rq_at Rq_uri n,
      b\<lparr>rb_uri := rb_uri b @ [c], rb_fullmessage := rb_fullmessage b @ [c]\<rparr>)"
    by (simp add: rq_eval)
  with Cons \<open>uri_text u\<close> show ?case by (simp add: feed_step)
qed

definition version_fold :: "i32 \<Rightarrow> string \<Rightarrow> i32" where
  "version_fold v ds = foldl (\<lambda>v c. v * 10 + ascii_digit c - ascii_digit CHR ''0'') v ds"

lemma version_fold_value:
  "\<forall>c\<in>set ds. char_int c - 48 = int (digit_val c) \<Longrightarrow>
   version_fold (word_of_int v) ds = word_of_int (foldl (\<lambda>a d. a * int 10 + int (digit_val d)) v ds)"
proof (induction ds arbitrary: v)
  case Nil
  then show ?case by (simp add: version_fold_def)
next
  case (Cons c ds)
  have "(word_of_int v * 10 + ascii_digit c - ascii_digit CHR ''0'' :: i32)
      = word_of_int (v * 10 + (char_int c - char_int CHR ''0''))"
    by (simp add: wi_hom_syms)
  also have "char_int c - char_int CHR ''0'' = int (digit_val c)"
    using Cons.prems by (simp add: char_int_def)
  finally have e: "(word_of_int v * 10 + ascii_digit c - ascii_digit CHR ''0'' :: i32)
      = word_of_int (v * 10 + int (digit_val c))" .
  have step: "version_fold (word_of_int v) (c # ds)
      = version_fold (word_of_int v * 10 + ascii_digit c - ascii_digit CHR ''0'') ds"
    by (simp only: version_fold_def foldl_Cons)
  show ?case
    unfolding foldl_Cons step e using Cons.IH [of "v * 10 + int (digit_val c)"] Cons.prems by simp
qed

lemma version_fold_dec: "version_fold 0 (dec_string n) = word_of_int (int n)"
proof -
  have "version_fold (word_of_int 0) (dec_string n) = word_of_int (value_of 10 (dec_string n))"
    unfolding value_of_def by (rule version_fold_value) (simp add: dec_string_char_int)
  then show ?thesis by simp
qed

lemma dec_string_is_digit: "c \<in> set (dec_string n) \<Longrightarrow> is_digit (char_int c)"
  using dec_string_char_int [of c n] by (simp add: is_digit_def char_int_def)

lemma feed_major:
  "\<forall>c\<in>set ds. is_digit (char_int c) \<and> c \<noteq> CHR ''.'' \<Longrightarrow>
   feed rq_consume (rq_at Rq_http_version_major n, b) ds =
   Some (rq_at Rq_http_version_major n,
         b\<lparr>rb_http_version_major := version_fold (rb_http_version_major b) ds,
           rb_fullmessage := rb_fullmessage b @ ds\<rparr>)"
proof (induction ds arbitrary: b)
  case Nil
  then show ?case by (simp add: version_fold_def)
next
  case (Cons c ds)
  then have "rq_consume (rq_at Rq_http_version_major n, b) c =
      (Indeterminate, rq_at Rq_http_version_major n,
       b\<lparr>rb_http_version_major := rb_http_version_major b * 10 + ascii_digit c - ascii_digit CHR ''0'',
         rb_fullmessage := rb_fullmessage b @ [c]\<rparr>)"
    by (simp add: rq_eval)
  with Cons show ?case by (simp add: feed_step version_fold_def)
qed

lemma feed_minor:
  "\<forall>c\<in>set ds. is_digit (char_int c) \<and> c \<noteq> CR \<Longrightarrow>
   feed rq_consume (rq_at Rq_http_version_minor n, b) ds =
   Some (rq_at Rq_http_version_minor n,
         b\<lparr>rb_http_version_minor := version_fold (rb_http_version_minor b) ds,
           rb_fullmessage := rb_fullmessage b @ ds\<rparr>)"
proof (induction ds arbitrary: b)
  case Nil
  then show ?case by (simp add: version_fold_def)
next
  case (Cons c ds)
  then have "rq_consume (rq_at Rq_http_version_minor n, b) c =
      (Indeterminate, rq_at Rq_http_version_minor n,
       b\<lparr>rb_http_version_minor := rb_http_version_minor b * 10 + ascii_digit c - ascii_digit CHR ''0'',
         rb_fullmessage := rb_fullmessage b @ [c]\<rparr>)"
    by (simp add: rq_eval)
  with Cons show ?case by (simp add: feed_step version_fold_def)
qed

lemma feed_major_start:
  assumes "rb_http_version_major b = 0"
  shows "feed rq_consume (rq_at Rq_http_version_major_start n, b) (dec_string v) =
   Some (rq_at Rq_http_version_major n,
         b\<lparr>rb_http_version_major := word_of_int (int v),
           rb_fullmessage := rb_fullmessage b @ dec_string v\<rparr>)"
proof -
  obtain d ds where ds: "dec_string v = d # ds" by (cases "dec_string v") auto
  have dig: "is_digit (char_int c)" "c \<noteq> CHR ''.''" if "c \<in> set (d # ds)" for c
    using that dec_string_is_digit [of c v] by (auto simp: ds is_digit_def char_int_def)
  then have "rq_consume (rq_at Rq_http_version_major_start n, b) d =
      (Indeterminate, rq_at Rq_http_version_major n,
       b\<lparr>rb_http_version_major := rb_http_version_major b * 10 + ascii_digit d - ascii_digit CHR ''0'',
         rb_fullmessage := rb_fullmessage b @ [d]\<rparr>)"
    by (simp add: rq_eval)
  moreover have "version_fold (rb_http_version_major b * 10 + ascii_digit d - ascii_digit CHR ''0'') ds
      = word_of_int (int v)"
    using version_fold_dec [of v] by (simp only: ds version_fold_def foldl_Cons assms)
  ultimately show ?thesis
    by (simp add: ds feed_step feed_major dig)
qed

lemma feed_minor_start:
  assumes "rb_http_version_minor b = 0"
  shows "feed rq_consume (rq_at Rq_http_version_minor_start n, b) (dec_string v) =
   Some (rq_at Rq_http_version_minor n,
         b\<lparr>rb_http_version_minor := word_of_int (int v),
           rb_fullmessage := rb_fullmessage b @ dec_string v\<rparr>)"
proof -
  obtain d ds where ds: "dec_string v = d # ds" by (cases "dec_string v") auto
  have dig: "is_digit (char_int c)" "c \<noteq> CR" if "c \<in> set (d # ds)" for c
    using that dec_string_is_digit [of c v] by (auto simp: ds is_digit_def char_int_def)
  then have "rq_consume (rq_at Rq_http_version_minor_start n, b) d =
      (Indeterminate, rq_at Rq_http_version_minor n,
       b\<lparr>rb_http_version_minor := rb_http_version_minor b * 10 + ascii_digit d - ascii_digit CHR ''0'',
         rb_fullmessage := rb_fullmessage b @ [d]\<rparr>)"
    by (simp add: rq_eval)
  moreover have "version_fold (rb_http_version_minor b * 10 + ascii_digit d - ascii_digit CHR ''0'') ds
      = word_of_int (int v)"
    using version_fold_dec [of v] by (simp only: ds version_fold_def foldl_Cons assms)
  ultimately show ?thesis
    by (simp add: ds feed_step feed_minor dig)
qed

text \<open>The request line, from a new builder to the first header.\<close>

lemma feed_request_head:
  assumes "token m" "uri_text u"
  shows "feed rq_consume (rq_at Rq_method_start n, new_request_builder) (request_head m u major minor) =
   Some (rq_at Rq_header_line_start n,
         new_request_builder\<lparr>rb_method := m, rb_uri := u,
           rb_http_version_major := word_of_int (int major),
           rb_http_version_minor := word_of_int (int minor),
           rb_fullmessage := request_head m u major minor\<rparr>)"
proof -
  obtain c cs where m: "m = c # cs" using assms(1) by (cases m) (auto simp: token_def)
  have c: "token_char c" "\<forall>d\<in>set cs. token_char d" using assms(1) by (auto simp: token_def m)
  have start: "rq_consume (rq_at Rq_method_start n, new_request_builder) c = (Indeterminate,
      rq_at Rq_method n, new_request_builder\<lparr>rb_method := [c], rb_fullmessage := [c]\<rparr>)"
    using c(1) by (simp add: rq_eval token_char_tests new_request_builder_def)
  have method_read: "feed rq_consume (rq_at Rq_method_start n, new_request_builder) m = Some
      (rq_at Rq_method n, new_request_builder\<lparr>rb_method := m, rb_fullmessage := m\<rparr>)"
    by (simp add: m start feed_method c)
  show ?thesis
    unfolding request_head_def
    by (simp add: feed_append method_read feed_uri assms(2) feed_major_start feed_minor_start rq_eval)
      (simp add: new_request_builder_def)
qed

text \<open>A complete header line: the name and the value are collected, then \<open>rq_end_header\<close> runs.\<close>

lemma feed_header_name:
  "\<forall>c\<in>set nm. token_char c \<Longrightarrow> rb_headers b = hs @ [h] \<Longrightarrow>
   feed rq_consume (rq_at Rq_header_name n, b) nm =
   Some (rq_at Rq_header_name n,
         b\<lparr>rb_headers := hs @ [h\<lparr>h_name := h_name h @ nm\<rparr>], rb_fullmessage := rb_fullmessage b @ nm\<rparr>)"
proof (induction nm arbitrary: b h)
  case Nil
  then show ?case by simp
next
  case (Cons c nm)
  then have "token_char c" "c \<noteq> CHR '':''" by (auto simp: byte_class)
  then have "rq_consume (rq_at Rq_header_name n, b) c = (Indeterminate, rq_at Rq_header_name n,
      b\<lparr>rb_headers := hs @ [h\<lparr>h_name := h_name h @ [c]\<rparr>], rb_fullmessage := rb_fullmessage b @ [c]\<rparr>)"
    by (simp add: rq_eval token_char_tests Cons.prems)
  with Cons show ?case by (simp add: feed_step)
qed

lemma feed_header_value:
  "value_text v \<Longrightarrow> rb_headers b = hs @ [h] \<Longrightarrow>
   feed rq_consume (rq_at Rq_header_value n, b) v =
   Some (rq_at Rq_header_value n,
         b\<lparr>rb_headers := hs @ [h\<lparr>h_value := h_value h @ v\<rparr>], rb_fullmessage := rb_fullmessage b @ v\<rparr>)"
proof (induction v arbitrary: b h)
  case Nil
  then show ?case by simp
next
  case (Cons c v)
  then have "text_char c" "c \<noteq> CR" "value_text v" by (auto simp: value_text_def byte_class)
  then have "rq_consume (rq_at Rq_header_value n, b) c = (Indeterminate, rq_at Rq_header_value n,
      b\<lparr>rb_headers := hs @ [h\<lparr>h_value := h_value h @ [c]\<rparr>], rb_fullmessage := rb_fullmessage b @ [c]\<rparr>)"
    by (simp add: rq_eval Cons.prems)
  with Cons \<open>value_text v\<close> show ?case by (simp add: feed_step)
qed

text \<open>A header the parser accepts: in the grammar, and a usable number if it declares a length.\<close>

definition header_accepted :: "header \<Rightarrow> bool" where
  "header_accepted h \<longleftrightarrow> header_ok h \<and>
     (is_content_length h \<longrightarrow> (\<exists>n. stoi 10 (h_value h) = Inr n \<and> 0 \<le> n))"

definition is_keep_alive :: "header \<Rightarrow> bool" where
  "is_keep_alive h \<longleftrightarrow>
     strcasecmp_eq (h_name h) ''Connection'' \<and> strcasecmp_eq (h_value h) ''Keep-Alive''"

lemma feed_header_line:
  assumes "header_accepted h" "n = declared_length (rb_headers b)"
  shows "\<exists>sz. feed rq_consume (rq_at Rq_header_line_start n, b) (header_line h) =
   Some (rq_at Rq_header_line_start (declared_length (rb_headers b @ [h])),
         b\<lparr>rb_headers := rb_headers b @ [h], rb_bodysize := sz,
           rb_fullmessage := rb_fullmessage b @ header_line h,
           rb_keep_alive := rb_keep_alive b \<or> is_keep_alive h\<rparr>)"
proof -
  obtain nm v where h: "h = \<lparr>h_name = nm, h_value = v\<rparr>" by (cases h)
  have nm: "token nm" and v: "value_text v" using assms(1) by (simp_all add: header_accepted_def header_ok_def h)
  obtain c cs where cs: "nm = c # cs" using nm by (cases nm) (auto simp: token_def)
  have c: "token_char c" "\<forall>d\<in>set cs. token_char d" using nm by (auto simp: token_def cs)
  define b1 where "b1 = b\<lparr>rb_headers := rb_headers b @ [\<lparr>h_name = [c], h_value = []\<rparr>],
     rb_fullmessage := rb_fullmessage b @ [c]\<rparr>"
  define b2 where "b2 = b\<lparr>rb_headers := rb_headers b @ [h],
     rb_fullmessage := rb_fullmessage b @ nm @ '': '' @ v\<rparr>"
  have first: "rq_consume (rq_at Rq_header_line_start n, b) c = (Indeterminate, rq_at Rq_header_name n, b1)"
    using c(1) byte_class(1-9) token_char_not [of c] by (simp add: rq_eval token_char_tests b1_def)
  have "feed rq_consume (rq_at Rq_header_line_start n, b) nm = Some (rq_at Rq_header_name n,
      b\<lparr>rb_headers := rb_headers b @ [\<lparr>h_name = nm, h_value = []\<rparr>],
        rb_fullmessage := rb_fullmessage b @ nm\<rparr>)"
    unfolding cs feed_step [of rq_consume, OF first] by (simp add: feed_header_name c b1_def)
  then have upto: "feed rq_consume (rq_at Rq_header_line_start n, b) (nm @ '': '' @ v) =
      Some (rq_at Rq_header_value n, b2)"
    by (simp add: feed_append rq_eval feed_header_value v b2_def h)
  have "\<exists>sz. rq_end_header (rq_at Rq_header_value n) (b2\<lparr>rb_fullmessage := rb_fullmessage b2 @ [CR]\<rparr>) =
      (Indeterminate, rq_at Rq_expecting_newline_2 (declared_length (rb_headers b @ [h])),
       b\<lparr>rb_headers := rb_headers b @ [h], rb_bodysize := sz,
         rb_fullmessage := rb_fullmessage b @ nm @ '': '' @ v @ [CR],
         rb_keep_alive := rb_keep_alive b \<or> is_keep_alive h\<rparr>)"
  proof (cases "is_content_length h")
    case True
    then obtain k where k: "stoi 10 (h_value h) = Inr k" "0 \<le> k"
      using assms(1) by (auto simp: header_accepted_def)
    have r: "in_int_range k" by (rule stoi_in_range [OF k(1)])
    show ?thesis
      by (rule exI [of _ "word_of_int k"])
        (use True k r in \<open>auto simp: rq_end_header_def Let_def b2_def is_content_length_def
          reserve_throws_iff sint_of_int_i32 declared_length_last is_keep_alive_def\<close>)
  next
    case False
    show ?thesis
      by (rule exI [of _ "rb_bodysize b"])
        (use False in \<open>auto simp: rq_end_header_def Let_def b2_def is_content_length_def assms(2)
          declared_length_last is_keep_alive_def\<close>)
  qed
  then obtain sz where fin: "rq_end_header (rq_at Rq_header_value n)
        (b2\<lparr>rb_fullmessage := rb_fullmessage b2 @ [CR]\<rparr>) =
      (Indeterminate, rq_at Rq_expecting_newline_2 (declared_length (rb_headers b @ [h])),
       b\<lparr>rb_headers := rb_headers b @ [h], rb_bodysize := sz,
         rb_fullmessage := rb_fullmessage b @ nm @ '': '' @ v @ [CR],
         rb_keep_alive := rb_keep_alive b \<or> is_keep_alive h\<rparr>)"
    by blast
  have line: "header_line h = (nm @ '': '' @ v) @ crlf"
    by (simp add: header_line_def h)
  show ?thesis
    unfolding line
    by (rule exI [of _ sz], rule feed_appendI [OF upto]) (simp add: rq_eval fin)
qed

lemma feed_header_lines:
  assumes "\<forall>h\<in>set hs. header_accepted h" "n = declared_length (rb_headers b)"
  shows "\<exists>sz. feed rq_consume (rq_at Rq_header_line_start n, b) (concat (map header_line hs)) =
   Some (rq_at Rq_header_line_start (declared_length (rb_headers b @ hs)),
         b\<lparr>rb_headers := rb_headers b @ hs, rb_bodysize := sz,
           rb_fullmessage := rb_fullmessage b @ concat (map header_line hs),
           rb_keep_alive := rb_keep_alive b \<or> (\<exists>h\<in>set hs. is_keep_alive h)\<rparr>)"
  using assms
proof (induction hs arbitrary: n b)
  case Nil
  then show ?case by (intro exI [of _ "rb_bodysize b"]) simp
next
  case (Cons h hs)
  obtain sz where sz: "feed rq_consume (rq_at Rq_header_line_start n, b) (header_line h) =
   Some (rq_at Rq_header_line_start (declared_length (rb_headers b @ [h])),
         b\<lparr>rb_headers := rb_headers b @ [h], rb_bodysize := sz,
           rb_fullmessage := rb_fullmessage b @ header_line h,
           rb_keep_alive := rb_keep_alive b \<or> is_keep_alive h\<rparr>)" (is "_ = Some (?p, ?b)")
    using feed_header_line [of h n b] Cons.prems by auto
  obtain sz' where "feed rq_consume (?p, ?b) (concat (map header_line hs)) =
   Some (rq_at Rq_header_line_start (declared_length (rb_headers ?b @ hs)),
         ?b\<lparr>rb_headers := rb_headers ?b @ hs, rb_bodysize := sz',
           rb_fullmessage := rb_fullmessage ?b @ concat (map header_line hs),
           rb_keep_alive := rb_keep_alive ?b \<or> (\<exists>h\<in>set hs. is_keep_alive h)\<rparr>)"
    using Cons.IH [of "declared_length (rb_headers ?b)" ?b] Cons.prems by auto
  then show ?case
    by (intro exI [of _ sz']) (simp add: feed_append sz disj_assoc)
qed

text \<open>The body: the counter decides where the message ends.\<close>

lemma rq_parse_body:
  assumes "int (length body) = sint n" "0 < sint n"
  shows "rq_parse (rq_at Rq_expecting_body n, b) body =
   (Good, (rq_at Rq_expecting_body 0,
           b\<lparr>rb_body := rb_body b @ body, rb_fullmessage := rb_fullmessage b @ body\<rparr>), [])"
  using assms
proof (induction body arbitrary: n b)
  case Nil
  then show ?case by simp
next
  case (Cons c body)
  have dec: "sint (n - 1) = sint n - 1" by (rule sint_dec [OF Cons.prems(2)])
  show ?case
  proof (cases body)
    case Nil
    with Cons.prems dec have "sint (n - 1) = 0" by simp
    then have "n - 1 = 0" by (simp only: signed_eq_0_iff)
    with Nil show ?thesis by (simp add: rq_eval)
  next
    case (Cons d ds)
    with Cons.prems dec have pos: "0 < sint (n - 1)" by simp
    then have nz: "n - 1 \<noteq> 0" by auto
    have "rq_consume (rq_at Rq_expecting_body n, b) c = (Indeterminate, rq_at Rq_expecting_body (n - 1),
        b\<lparr>rb_body := rb_body b @ [c], rb_fullmessage := rb_fullmessage b @ [c]\<rparr>)"
      using nz by (simp add: rq_eval)
    moreover have "int (length body) = sint (n - 1)" using Cons.prems dec by simp
    ultimately show ?thesis
      using Cons.IH [of "n - 1"] pos by simp
  qed
qed

text \<open>The request line and the headers, from a new builder to the line after the last header.\<close>

definition head_of_request :: "string \<Rightarrow> string \<Rightarrow> nat \<Rightarrow> nat \<Rightarrow> header list \<Rightarrow> string" where
  "head_of_request m u major minor hs = request_head m u major minor @ concat (map header_line hs)"

lemma feed_head_of_request:
  assumes "token m" "uri_text u" "\<forall>h\<in>set hs. header_accepted h"
  shows "\<exists>sz. feed rq_consume (new_request_parser, new_request_builder) (head_of_request m u major minor hs) =
   Some (rq_at Rq_header_line_start (declared_length hs),
      \<lparr>rb_method = m, rb_uri = u, rb_http_version_major = word_of_int (int major),
       rb_http_version_minor = word_of_int (int minor), rb_headers = hs, rb_bodysize = sz,
       rb_body = [], rb_fullmessage = head_of_request m u major minor hs,
       rb_keep_alive = (\<exists>h\<in>set hs. is_keep_alive h)\<rparr>)"
proof -
  let ?b = "new_request_builder\<lparr>rb_method := m, rb_uri := u,
           rb_http_version_major := word_of_int (int major),
           rb_http_version_minor := word_of_int (int minor),
           rb_fullmessage := request_head m u major minor\<rparr>"
  have "rb_headers ?b = []" by (simp add: new_request_builder_def)
  then obtain sz where "feed rq_consume (rq_at Rq_header_line_start 0, ?b) (concat (map header_line hs)) =
   Some (rq_at Rq_header_line_start (declared_length hs),
         ?b\<lparr>rb_headers := hs, rb_bodysize := sz,
           rb_fullmessage := rb_fullmessage ?b @ concat (map header_line hs),
           rb_keep_alive := rb_keep_alive ?b \<or> (\<exists>h\<in>set hs. is_keep_alive h)\<rparr>)"
    using feed_header_lines [OF assms(3), of 0 ?b] by auto
  then show ?thesis
    using feed_request_head [OF assms(1,2), of 0 major minor]
    by (intro exI [of _ sz])
      (simp add: head_of_request_def feed_append new_request_parser_def,
       simp add: new_request_builder_def)
qed

text \<open>
  The parser accepts every printed request and its builder then holds exactly the parts that
  were printed; the counter is back at 0, in the last state of the machine.
\<close>

theorem rq_parse_printed:
  assumes "token m" "uri_text u" "\<forall>h\<in>set hs. header_accepted h"
    and "int (length body) = sint (declared_length hs)"
  shows "\<exists>st sz. rq_parse (new_request_parser, new_request_builder)
     (head_of_request m u major minor hs @ crlf @ body) =
   (Good, (rq_at st 0,
      \<lparr>rb_method = m, rb_uri = u, rb_http_version_major = word_of_int (int major),
       rb_http_version_minor = word_of_int (int minor), rb_headers = hs, rb_bodysize = sz,
       rb_body = body,
       rb_fullmessage = head_of_request m u major minor hs @ crlf @ body,
       rb_keep_alive = (\<exists>h\<in>set hs. is_keep_alive h)\<rparr>), [])"
proof -
  obtain sz where upto: "feed rq_consume (new_request_parser, new_request_builder)
      (head_of_request m u major minor hs) = Some (rq_at Rq_header_line_start (declared_length hs),
      \<lparr>rb_method = m, rb_uri = u, rb_http_version_major = word_of_int (int major),
       rb_http_version_minor = word_of_int (int minor), rb_headers = hs, rb_bodysize = sz,
       rb_body = [], rb_fullmessage = head_of_request m u major minor hs,
       rb_keep_alive = (\<exists>h\<in>set hs. is_keep_alive h)\<rparr>)"
    using feed_head_of_request [OF assms(1-3), of major minor] by blast
  note rest = rq_parse_append [OF upto]
  show ?thesis
  proof (cases "declared_length hs = 0")
    case True
    with assms(4) have "body = []" by simp
    with True show ?thesis
      by (intro exI [of _ Rq_expecting_newline_3] exI [of _ sz]) (simp add: rest rq_eval)
  next
    case False
    with assms(4) have pos: "0 < sint (declared_length hs)"
      by (metis int_ops(1) of_nat_0_le_iff sint_i32_pos)
    show ?thesis
      by (intro exI [of _ Rq_expecting_body] exI [of _ sz])
        (simp add: rest rq_eval False rq_parse_body [OF assms(4) pos])
  qed
qed

text \<open>When a body is declared, the byte after the last carriage return is not looked at.\<close>

lemma rq_parse_any_newline:
  assumes "token m" "uri_text u" "\<forall>h\<in>set hs. header_accepted h"
    and "int (length body) = sint (declared_length hs)" "body \<noteq> []"
  shows "\<exists>b. rq_parse (new_request_parser, new_request_builder)
     (head_of_request m u major minor hs @ [CR, c] @ body) = (Good, (rq_at Rq_expecting_body 0, b), [])
     \<and> rb_method b = m \<and> rb_uri b = u \<and> rb_headers b = hs \<and> rb_body b = body"
proof -
  from assms(5) have "0 < int (length body)" by simp
  then have pos: "0 < sint (declared_length hs)" using assms(4) by simp
  then have nz: "declared_length hs \<noteq> 0" by auto
  obtain sz where upto: "feed rq_consume (new_request_parser, new_request_builder)
      (head_of_request m u major minor hs) = Some (rq_at Rq_header_line_start (declared_length hs),
      \<lparr>rb_method = m, rb_uri = u, rb_http_version_major = word_of_int (int major),
       rb_http_version_minor = word_of_int (int minor), rb_headers = hs, rb_bodysize = sz,
       rb_body = [], rb_fullmessage = head_of_request m u major minor hs,
       rb_keep_alive = (\<exists>h\<in>set hs. is_keep_alive h)\<rparr>)"
    using feed_head_of_request [OF assms(1-3), of major minor] by blast
  show ?thesis
    by (simp add: rq_parse_append [OF upto] rq_eval nz rq_parse_body [OF assms(4) pos])
qed

text \<open>What \<open>build_request\<close> makes of a request printed in HTTP form.\<close>

lemma rq_read_back:
  assumes "token m" "uri_text u" "\<forall>h\<in>set hs. header_accepted h"
    and "int (length content) = sint (declared_length hs)"
    and "in_int_range (int major)" "in_int_range (int minor)"
  shows "\<exists>p b. rq_parse (new_request_parser, new_request_builder)
       (head_of_request m u major minor hs @ crlf @ content) = (Good, (p, b), [])
     \<and> rq_reset p = new_request_parser
     \<and> rb_keep_alive b = (\<exists>h\<in>set hs. is_keep_alive h)
     \<and> rq_build_request junk b =
         \<lparr>method_of = method_of_name junk m, uri_of = u,
          version_of = ''HTTP/'' @ dec_string major @ ''.'' @ dec_string minor,
          headers_of = assign_headers hs, body_of = content\<rparr>"
proof -
  obtain st sz where parse: "rq_parse (new_request_parser, new_request_builder)
       (head_of_request m u major minor hs @ crlf @ content) =
   (Good, (rq_at st 0,
      \<lparr>rb_method = m, rb_uri = u, rb_http_version_major = word_of_int (int major),
       rb_http_version_minor = word_of_int (int minor), rb_headers = hs, rb_bodysize = sz,
       rb_body = content,
       rb_fullmessage = head_of_request m u major minor hs @ crlf @ content,
       rb_keep_alive = (\<exists>h\<in>set hs. is_keep_alive h)\<rparr>), [])"
    using rq_parse_printed [OF assms(1-4), of major minor] by blast
  have "to_string (int n) = dec_string n" for n by (simp add: to_string_def)
  with sint_of_int_i32 [OF assms(5)] sint_of_int_i32 [OF assms(6)] show ?thesis
    unfolding parse by (auto simp: rq_reset_def new_request_parser_def rq_build_request_def)
qed

end
