(* ===== verification/ResponseHelper.thy ===== *)
theory ResponseHelper
  imports HttpMessage
begin

text \<open>
  \<open>ResponseHelperLibrary\<close> (include/response_helper_library.h, src/response_helper_library.cc):
  the strings of the status lines and of the stock bodies, \<open>to_buffer\<close> and \<open>to_buffers\<close>, which
  list the buffers written to the socket, and \<open>stock_response\<close>. The bytes on the wire are the
  concatenation of the buffers.

  \<open>framed\<close> is what the handlers that answer with a body promise: the \<open>Content-Length\<close> of the
  response is the size of its body.
\<close>

subsection \<open>Strings\<close>

text \<open>The constants of the namespaces \<open>status_strings\<close> and \<open>stock_responses\<close>, by status.\<close>

fun status_strings :: "StatusCode \<Rightarrow> string" where
  "status_strings St_ok = ''HTTP/1.0 200 OK'' @ crlf"
| "status_strings St_created = ''HTTP/1.0 201 Created'' @ crlf"
| "status_strings St_accepted = ''HTTP/1.0 202 Accepted'' @ crlf"
| "status_strings St_no_content = ''HTTP/1.0 204 No Content'' @ crlf"
| "status_strings St_multiple_choices = ''HTTP/1.0 300 Multiple Choices'' @ crlf"
| "status_strings St_moved_permanently = ''HTTP/1.0 301 Moved Permanently'' @ crlf"
| "status_strings St_moved_temporarily = ''HTTP/1.0 302 Moved Temporarily'' @ crlf"
| "status_strings St_not_modified = ''HTTP/1.0 304 Not Modified'' @ crlf"
| "status_strings St_bad_request = ''HTTP/1.0 400 Bad Request'' @ crlf"
| "status_strings St_unauthorized = ''HTTP/1.0 401 Unauthorized'' @ crlf"
| "status_strings St_forbidden = ''HTTP/1.0 403 Forbidden'' @ crlf"
| "status_strings St_not_found = ''HTTP/1.0 404 Not Found'' @ crlf"
| "status_strings St_internal_server_error = ''HTTP/1.0 500 Internal Server Error'' @ crlf"
| "status_strings St_not_implemented = ''HTTP/1.0 501 Not Implemented'' @ crlf"
| "status_strings St_bad_gateway = ''HTTP/1.0 502 Bad Gateway'' @ crlf"
| "status_strings St_service_unavailable = ''HTTP/1.0 503 Service Unavailable'' @ crlf"
| "status_strings (Unlisted i) = []"  \<comment> \<open>no such constant; \<open>to_buffer\<close> never asks for it\<close>

definition stock_page :: "string \<Rightarrow> string \<Rightarrow> string" where
  "stock_page title heading =
     ''<html>'' @ ''<head><title>'' @ title @ ''</title></head>''
     @ ''<body><h1>'' @ heading @ ''</h1></body>'' @ ''</html>''"

fun stock_responses :: "StatusCode \<Rightarrow> string" where
  "stock_responses St_ok = ''''"
| "stock_responses St_created = stock_page ''Created'' ''201 Created''"
| "stock_responses St_accepted = stock_page ''Accepted'' ''202 Accepted''"
| "stock_responses St_no_content = stock_page ''No Content'' ''204 Content''"
| "stock_responses St_multiple_choices = stock_page ''Multiple Choices'' ''300 Multiple Choices''"
| "stock_responses St_moved_permanently = stock_page ''Moved Permanently'' ''301 Moved Permanently''"
| "stock_responses St_moved_temporarily = stock_page ''Moved Temporarily'' ''302 Moved Temporarily''"
| "stock_responses St_not_modified = stock_page ''Not Modified'' ''304 Not Modified''"
| "stock_responses St_bad_request = stock_page ''Bad Request'' ''400 Bad Request''"
| "stock_responses St_unauthorized = stock_page ''Unauthorized'' ''401 Unauthorized''"
| "stock_responses St_forbidden = stock_page ''Forbidden'' ''403 Forbidden''"
| "stock_responses St_not_found = stock_page ''Not Found'' ''404 Not Found''"
| "stock_responses St_internal_server_error =
     stock_page ''Internal Server Error'' ''500 Internal Server Error''"
| "stock_responses St_not_implemented = stock_page ''Not Implemented'' ''501 Not Implemented''"
| "stock_responses St_bad_gateway = stock_page ''Bad Gateway'' ''502 Bad Gateway''"
| "stock_responses St_service_unavailable =
     stock_page ''Service Unavailable'' ''503 Service Unavailable''"
| "stock_responses (Unlisted i) = []"

subsection \<open>Serialisation\<close>

definition to_buffer :: "StatusCode \<Rightarrow> string" where
  "to_buffer status =
     (case status of
        St_ok \<Rightarrow> status_strings St_ok
      | St_bad_request \<Rightarrow> status_strings St_bad_request
      | St_not_found \<Rightarrow> status_strings St_not_found
      | St_moved_temporarily \<Rightarrow> status_strings St_moved_temporarily
      | _ \<Rightarrow> status_strings St_bad_request)"

definition to_buffers :: "Response \<Rightarrow> string list" where
  "to_buffers response =
     [to_buffer (code_of response)]
     @ concat (map (\<lambda>(k, v). [k, '': '', v, crlf]) (rheaders_of response))
     @ [crlf, rbody_of response]"

definition wire :: "Response \<Rightarrow> string" where
  "wire response = concat (to_buffers response)"

definition stock_body :: "StatusCode \<Rightarrow> string" where  \<comment> \<open>\<open>ResponseHelperLibrary::to_string\<close>\<close>
  "stock_body status =
     (case status of
        St_bad_request \<Rightarrow> stock_responses St_bad_request
      | St_not_found \<Rightarrow> stock_responses St_not_found
      | _ \<Rightarrow> stock_responses St_bad_request)"

text \<open>\<open>std::to_string(response.body_.size())\<close>.\<close>

definition size_string :: "string \<Rightarrow> string" where
  "size_string b = to_string (int (length b))"

definition stock_response :: "StatusCode \<Rightarrow> Response" where
  "stock_response status =
     (let r = new_response status (stock_body status);
          r = set_header ''Content-Length'' (size_string (rbody_of r)) r
      in set_header ''Content-Type'' ''text/html'' r)"

lemma wire_eq:
  "wire r = to_buffer (code_of r)
     @ concat (map header_line (map header_of_entry (rheaders_of r))) @ crlf @ rbody_of r"
proof -
  have "concat (concat (map (\<lambda>(k, v). [k, '': '', v, crlf]) m))
      = concat (map header_line (map header_of_entry m))" for m
    by (induction m) (auto simp: header_line_def header_of_entry_def)
  then show ?thesis by (simp add: wire_def to_buffers_def)
qed

text \<open>The status a reader sees on the wire: only four of them keep their number.\<close>

definition wire_status :: "StatusCode \<Rightarrow> StatusCode" where
  "wire_status s =
     (if s \<in> {St_ok, St_bad_request, St_not_found, St_moved_temporarily} then s else St_bad_request)"

lemma to_buffer_wire_status: "to_buffer s = status_strings (wire_status s)"
  by (cases s) (simp_all add: to_buffer_def wire_status_def)

lemma wire_status_cases:
  "wire_status s \<in> {St_ok, St_bad_request, St_not_found, St_moved_temporarily}"
  by (simp add: wire_status_def)

subsection \<open>What handlers promise of their responses\<close>

definition framed :: "Response \<Rightarrow> bool" where
  "framed r \<longleftrightarrow> map_ok (rheaders_of r) \<and>
     (\<forall>kv\<in>set (rheaders_of r). header_ok (header_of_entry kv)) \<and>
     (\<forall>kv\<in>set (rheaders_of r). strcasecmp_eq (fst kv) ''Content-Length'' \<longrightarrow>
        snd kv = size_string (rbody_of r)) \<and>
     map_of (rheaders_of r) ''Content-Length'' = Some (size_string (rbody_of r))"

lemma token_Content_Length [byte_class]: "token ''Content-Length''"
  by (simp add: token_def token_char_def is_tspecial_char_int)
    (simp add: is_char_def is_ctl_def char_int_def)

lemma token_Content_Type [byte_class]: "token ''Content-Type''"
  by (simp add: token_def token_char_def is_tspecial_char_int)
    (simp add: is_char_def is_ctl_def char_int_def)

lemma token_Location [byte_class]: "token ''Location''"
  by (simp add: token_def token_char_def is_tspecial_char_int)
    (simp add: is_char_def is_ctl_def char_int_def)

lemma dec_string_value_text [byte_class]: "value_text (dec_string n)"
  unfolding value_text_def text_char_def is_ctl_def using dec_string_char_int(3,4) by fastforce

lemma size_string_value_text [byte_class]: "value_text (size_string b)"
  by (simp add: size_string_def to_string_def dec_string_value_text)

lemma mime_value_text [byte_class]:
  "value_text ''text/html''" "value_text ''text/plain''" "value_text ''image/gif''"
  "value_text ''image/jpeg''" "value_text ''image/png''" "value_text ''application/zip''"
  "value_text ''application/pdf''"
  by (simp_all add: value_text_def text_char_def is_ctl_def char_int_def)

text \<open>The shape of every response the handlers build: a body, its length and its type.\<close>

definition body_response :: "StatusCode \<Rightarrow> string \<Rightarrow> string \<Rightarrow> Response" where
  "body_response status body mime =
     set_header ''Content-Type'' mime
       (set_header ''Content-Length'' (size_string body) (new_response status body))"

lemma body_response_simps [simp]:
  "code_of (body_response s b m) = s" "rbody_of (body_response s b m) = b"
  "rheaders_of (body_response s b m) = [(''Content-Length'', size_string b), (''Content-Type'', m)]"
  by (simp_all add: body_response_def)

lemma framed_body_response: "value_text mime \<Longrightarrow> framed (body_response status body mime)"
  by (simp add: framed_def header_of_entry_def header_ok_def byte_class map_ok_def strcasecmp_eq_def
      c_str_def to_lower_def)

lemma stock_response_body_response:
  "stock_response s = body_response s (stock_body s) ''text/html''"
  by (simp add: stock_response_def Let_def body_response_def)

end
