(* ===== verification/ResponseParser.thy ===== *)
theory ResponseParser
  imports RequestParser ResponseHelper
begin

text \<open>
  The response parser the proxy uses on what the remote server sends: \<open>response_builder\<close>
  (include/response_builder.h) and \<open>response_parser\<close> (include/response_parser.h,
  src/response_parser.cc). \<open>rs_consume\<close> is \<open>consume\<close>, split by the part of the message as
  \<open>rs_consume_line\<close>, \<open>rs_consume_header\<close> (with \<open>rs_end_header\<close>) and \<open>rs_consume_body\<close>;
  \<open>rs_parse\<close> is the template \<open>parse\<close>, which unlike the request parser's goes on reading after a
  complete message.

  A default-initialised builder leaves \<open>contentsize\<close> indeterminate, and a response without
  \<open>Content-Length\<close> has it read: the value is the parameter \<open>junk\<close> of \<open>new_response_builder\<close>.
  The other fields without an initial value are written before they are read.
\<close>

subsection \<open>State\<close>

datatype rs_state =
    Rs_http_version_h | Rs_http_version_t_1 | Rs_http_version_t_2 | Rs_http_version_p
  | Rs_http_version_slash | Rs_http_version_major_start | Rs_http_version_major
  | Rs_http_version_minor_start | Rs_http_version_minor
  | Rs_status_code_1 | Rs_status_code_2 | Rs_status_code_3
  | Rs_space_before_reason_phrase | Rs_reason_phrase
  | Rs_expecting_newline_1 | Rs_header_line_start | Rs_header_lws | Rs_header_name
  | Rs_space_before_header_value | Rs_header_value
  | Rs_expecting_newline_2 | Rs_expecting_newline_3 | Rs_expecting_body
  | Rs_chunk_size_start | Rs_chunk_size | Rs_expecting_newline_4 | Rs_expecting_chunk
  | Rs_expecting_newline_5

record response_builder =
  sb_http_version_major :: i32
  sb_http_version_minor :: i32
  sb_code :: i32
  sb_reasonphrase :: "char list"
  sb_headers :: "header list"
  sb_body :: "char list"
  sb_fullmessage :: "char list"
  sb_keep_alive :: bool
  sb_chunked :: bool
  sb_contentsize :: i32
  sb_chunksizehex :: "char list"
  sb_chunksize :: i32

type_synonym rs_machine = "rs_state \<times> response_builder"

definition new_response_builder :: "i32 \<Rightarrow> response_builder" where
  "new_response_builder junk = \<lparr>sb_http_version_major = 0, sb_http_version_minor = 0, sb_code = 0,
     sb_reasonphrase = [], sb_headers = [], sb_body = [], sb_fullmessage = [], sb_keep_alive = False,
     sb_chunked = False, sb_contentsize = junk, sb_chunksizehex = [], sb_chunksize = 0\<rparr>"

definition new_response_parser :: rs_state where
  "new_response_parser = Rs_http_version_h"

subsection \<open>One byte\<close>

definition rs_consume_line ::
  "rs_state \<Rightarrow> response_builder \<Rightarrow> char \<Rightarrow> result_type \<times> rs_machine" where
  "rs_consume_line st res input =
     (let ic = char_int input;
          next_if = (\<lambda>ch st'. if input = ch then (Indeterminate, st', res) else (Bad, st, res));
          add = (\<lambda>v. v * 10 + ascii_digit input - ascii_digit CHR ''0'')
      in case st of
       Rs_http_version_h \<Rightarrow> next_if CHR ''H'' Rs_http_version_t_1
     | Rs_http_version_t_1 \<Rightarrow> next_if CHR ''T'' Rs_http_version_t_2
     | Rs_http_version_t_2 \<Rightarrow> next_if CHR ''T'' Rs_http_version_p
     | Rs_http_version_p \<Rightarrow> next_if CHR ''P'' Rs_http_version_slash
     | Rs_http_version_slash \<Rightarrow>
         if input = CHR ''/'' then
           (Indeterminate, Rs_http_version_major_start,
            res\<lparr>sb_http_version_major := 0, sb_http_version_minor := 0\<rparr>)
         else (Bad, st, res)
     | Rs_http_version_major_start \<Rightarrow>
         if is_digit ic then
           (Indeterminate, Rs_http_version_major,
            res\<lparr>sb_http_version_major := add (sb_http_version_major res)\<rparr>)
         else (Bad, st, res)
     | Rs_http_version_major \<Rightarrow>
         if input = CHR ''.'' then (Indeterminate, Rs_http_version_minor_start, res)
         else if is_digit ic then
           (Indeterminate, st, res\<lparr>sb_http_version_major := add (sb_http_version_major res)\<rparr>)
         else (Bad, st, res)
     | Rs_http_version_minor_start \<Rightarrow>
         if is_digit ic then
           (Indeterminate, Rs_http_version_minor,
            res\<lparr>sb_http_version_minor := add (sb_http_version_minor res)\<rparr>)
         else (Bad, st, res)
     | Rs_http_version_minor \<Rightarrow>
         if input = CHR '' '' then (Indeterminate, Rs_status_code_1, res)
         else if is_digit ic then
           (Indeterminate, st, res\<lparr>sb_http_version_minor := add (sb_http_version_minor res)\<rparr>)
         else (Bad, st, res)
     | Rs_status_code_1 \<Rightarrow>
         if char_int CHR ''1'' \<le> ic \<and> ic \<le> char_int CHR ''5'' then
           (Indeterminate, Rs_status_code_2,
            res\<lparr>sb_code := ascii_digit input - ascii_digit CHR ''0''\<rparr>)
         else (Bad, st, res)
     | Rs_status_code_2 \<Rightarrow>
         if is_digit ic then
           (Indeterminate, Rs_status_code_3, res\<lparr>sb_code := add (sb_code res)\<rparr>)
         else (Bad, st, res)
     | Rs_status_code_3 \<Rightarrow>
         if is_digit ic then
           (Indeterminate, Rs_space_before_reason_phrase, res\<lparr>sb_code := add (sb_code res)\<rparr>)
         else (Bad, st, res)
     | Rs_space_before_reason_phrase \<Rightarrow> next_if CHR '' '' Rs_reason_phrase
     | Rs_reason_phrase \<Rightarrow>
         if input = CR then (Indeterminate, Rs_expecting_newline_1, res)
         else if \<not> is_char ic \<or> is_ctl ic \<or> (is_tspecial ic \<and> input \<noteq> CHR '' '') then (Bad, st, res)
         else (Indeterminate, st, res\<lparr>sb_reasonphrase := sb_reasonphrase res @ [input]\<rparr>)
     | Rs_expecting_newline_1 \<Rightarrow> next_if LF Rs_header_line_start
     | _ \<Rightarrow> (Bad, st, res))"

definition rs_end_header :: "response_builder \<Rightarrow> result_type \<times> rs_machine" where
  "rs_end_header res =
     (let h = last (sb_headers res);
          finish = (\<lambda>res.
            let res = (if strcasecmp_eq (h_name h) ''Transfer-Encoding''
                          \<and> strcasecmp_eq (h_value h) ''chunked''
                       then res\<lparr>sb_chunked := True\<rparr> else res);
                res = (if strcasecmp_eq (h_name h) ''Connection''
                          \<and> strcasecmp_eq (h_value h) ''Keep-Alive''
                       then res\<lparr>sb_keep_alive := True\<rparr> else res)
            in (Indeterminate, Rs_expecting_newline_2, res))
      in if strcasecmp_eq (h_name h) ''Content-Length'' then
           case stoi 10 (h_value h) of
             Inl e \<Rightarrow> (Bad, Rs_header_value, res)
           | Inr n \<Rightarrow>
               let res = res\<lparr>sb_contentsize := word_of_int n\<rparr>
               in if reserve_throws (sint (sb_contentsize res)) then (Bad, Rs_header_value, res)
                  else finish res
         else finish res)"

definition rs_consume_header ::
  "rs_state \<Rightarrow> response_builder \<Rightarrow> char \<Rightarrow> result_type \<times> rs_machine" where
  "rs_consume_header st res input =
     (let ic = char_int input;
          add_value = res\<lparr>sb_headers :=
            map_last (\<lambda>h. h\<lparr>h_value := h_value h @ [input]\<rparr>) (sb_headers res)\<rparr>
      in case st of
       Rs_header_line_start \<Rightarrow>
         if input = CR then (Indeterminate, Rs_expecting_newline_3, res)
         else if sb_headers res \<noteq> [] \<and> (input = CHR '' '' \<or> input = TAB) then
           (Indeterminate, Rs_header_lws, res)
         else if \<not> is_char ic \<or> is_ctl ic \<or> is_tspecial ic then (Bad, st, res)
         else (Indeterminate, Rs_header_name,
               res\<lparr>sb_headers := sb_headers res @ [\<lparr>h_name = [input], h_value = []\<rparr>]\<rparr>)
     | Rs_header_lws \<Rightarrow>
         if input = CR then (Indeterminate, Rs_expecting_newline_2, res)
         else if input = CHR '' '' \<or> input = TAB then (Indeterminate, st, res)
         else if is_ctl ic then (Bad, st, res)
         else (Indeterminate, Rs_header_value, add_value)
     | Rs_header_name \<Rightarrow>
         if input = CHR '':'' then (Indeterminate, Rs_space_before_header_value, res)
         else if \<not> is_char ic \<or> is_ctl ic \<or> is_tspecial ic then (Bad, st, res)
         else (Indeterminate, st,
               res\<lparr>sb_headers :=
                     map_last (\<lambda>h. h\<lparr>h_name := h_name h @ [input]\<rparr>) (sb_headers res)\<rparr>)
     | Rs_space_before_header_value \<Rightarrow>
         if input = CHR '' '' then (Indeterminate, Rs_header_value, res) else (Bad, st, res)
     | Rs_header_value \<Rightarrow>
         if input = CR then rs_end_header res
         else if is_ctl ic then (Bad, st, res)
         else (Indeterminate, st, add_value)
     | Rs_expecting_newline_2 \<Rightarrow>
         if input = LF then (Indeterminate, Rs_header_line_start, res) else (Bad, st, res)
     | _ \<Rightarrow> (Bad, st, res))"

definition rs_consume_body ::
  "rs_state \<Rightarrow> response_builder \<Rightarrow> char \<Rightarrow> result_type \<times> rs_machine" where
  "rs_consume_body st res input =
     (let ic = char_int input in case st of
       Rs_expecting_newline_3 \<Rightarrow>
         if input \<noteq> LF then (Bad, st, res)
         else if sb_chunked res then (Indeterminate, Rs_chunk_size_start, res)
         else if sb_contentsize res = 0 then (if input = LF then Good else Bad, st, res)
         else (Indeterminate, Rs_expecting_body, res)
     | Rs_expecting_body \<Rightarrow>
         let res = res\<lparr>sb_contentsize := sb_contentsize res - 1, sb_body := sb_body res @ [input]\<rparr>
         in (if sb_contentsize res = 0 then Good else Indeterminate, st, res)
     | Rs_chunk_size_start \<Rightarrow>
         if is_hex ic then (Indeterminate, Rs_chunk_size, res\<lparr>sb_chunksizehex := [input]\<rparr>)
         else (Bad, st, res)
     | Rs_chunk_size \<Rightarrow>
         if is_hex ic then
           (Indeterminate, st, res\<lparr>sb_chunksizehex := sb_chunksizehex res @ [input]\<rparr>)
         else if input = CR then
           (case stoi 16 (sb_chunksizehex res) of
              Inl e \<Rightarrow> (Bad, Rs_expecting_newline_4, res)
            | Inr n \<Rightarrow>
                let res = res\<lparr>sb_chunksize := word_of_int n\<rparr>
                in (if sb_chunksize res = 0 then Good else Indeterminate, Rs_expecting_newline_4, res))
         else (Bad, st, res)
     | Rs_expecting_newline_4 \<Rightarrow>
         if input = LF then (Indeterminate, Rs_expecting_chunk, res) else (Bad, st, res)
     | Rs_expecting_chunk \<Rightarrow>
         let res = res\<lparr>sb_chunksize := sb_chunksize res - 1\<rparr>
         in if input = CR \<and> sb_chunksize res = - 1 then (Indeterminate, Rs_expecting_newline_5, res)
            else (Indeterminate, st, res\<lparr>sb_body := sb_body res @ [input]\<rparr>)
     | Rs_expecting_newline_5 \<Rightarrow>
         if input = LF then (Indeterminate, Rs_chunk_size_start, res) else (Bad, st, res)
     | _ \<Rightarrow> (Bad, st, res))"

fun rs_consume :: "rs_machine \<Rightarrow> char \<Rightarrow> result_type \<times> rs_machine" where
  "rs_consume (st, res) input =
     (let res = res\<lparr>sb_fullmessage := sb_fullmessage res @ [input]\<rparr>
      in if st \<in> {Rs_header_line_start, Rs_header_lws, Rs_header_name,
              Rs_space_before_header_value, Rs_header_value, Rs_expecting_newline_2}
         then rs_consume_header st res input
         else if st \<in> {Rs_expecting_newline_3, Rs_expecting_body, Rs_chunk_size_start, Rs_chunk_size,
              Rs_expecting_newline_4, Rs_expecting_chunk, Rs_expecting_newline_5}
         then rs_consume_body st res input
         else rs_consume_line st res input)"

text \<open>\<open>verdict\<close> is that of the byte before; the loop starts with \<open>Indeterminate\<close>.\<close>

fun rs_parse_from ::
  "result_type \<Rightarrow> rs_machine \<Rightarrow> char list \<Rightarrow> result_type \<times> rs_machine \<times> char list" where
  "rs_parse_from verdict s [] = (verdict, s, [])"
| "rs_parse_from verdict s (c # rest) =
     (case rs_consume s c of (result, s') \<Rightarrow>
        if result = Bad then (result, s', rest)
        else if result = Good \<and> sb_chunked (snd s') \<and> sb_chunksize (snd s') = 0
        then (result, s', rest)
        else rs_parse_from result s' rest)"

definition rs_parse :: "rs_machine \<Rightarrow> char list \<Rightarrow> result_type \<times> rs_machine \<times> char list" where
  "rs_parse s data = rs_parse_from Indeterminate s data"

definition rs_build_response :: "response_builder \<Rightarrow> Response" where
  "rs_build_response b =
     \<lparr>code_of = status_cast (sint (sb_code b)), rheaders_of = assign_headers (sb_headers b),
      rbody_of = sb_body b\<rparr>"

subsection \<open>Every byte is logged, the headers stay in the grammar\<close>

lemma rs_consume_line_log:
  "sb_fullmessage (snd (snd (rs_consume_line st b c))) = sb_fullmessage b"
  by (cases st; simp add: rs_consume_line_def Let_def)

lemma rs_end_header_log: "sb_fullmessage (snd (snd (rs_end_header b))) = sb_fullmessage b"
  by (simp add: rs_end_header_def Let_def split: sum.split)

lemma rs_consume_header_log:
  "sb_fullmessage (snd (snd (rs_consume_header st b c))) = sb_fullmessage b"
  by (cases st; simp add: rs_consume_header_def rs_end_header_log Let_def)

lemma rs_consume_body_log:
  "sb_fullmessage (snd (snd (rs_consume_body st b c))) = sb_fullmessage b"
  by (cases st; simp add: rs_consume_body_def Let_def split: sum.split)

lemma rs_consume_log:
  "sb_fullmessage (snd (snd (rs_consume s c))) = sb_fullmessage (snd s) @ [c]"
  by (cases s) (simp add: Let_def rs_consume_line_log rs_consume_header_log rs_consume_body_log)

definition rs_ok :: "rs_machine \<Rightarrow> bool" where
  "rs_ok s \<longleftrightarrow>
     (\<forall>h\<in>set (sb_headers (snd s)). header_ok h) \<and>
     (fst s \<in> {Rs_header_lws, Rs_header_name, Rs_space_before_header_value, Rs_header_value}
        \<longrightarrow> sb_headers (snd s) \<noteq> [])"

lemma rs_line_ok: "rs_ok (st, b) \<Longrightarrow> keeps rs_ok (rs_consume_line st b c)"
  by (cases st; simp add: rs_consume_line_def Let_def rs_ok_def)

lemma rs_header_ok: "rs_ok (st, b) \<Longrightarrow> keeps rs_ok (rs_consume_header st b c)"
  apply (cases st)
  apply (simp_all add: rs_consume_header_def rs_end_header_def Let_def rs_ok_def split: sum.split)
  apply (simp_all add: is_ctl_text headers_ok_add header_ok_add token_char_tests)
  done

lemma rs_body_ok: "rs_ok (st, b) \<Longrightarrow> keeps rs_ok (rs_consume_body st b c)"
  by (cases st; simp add: rs_consume_body_def Let_def rs_ok_def split: sum.split)

interpretation rs: byte_machine rs_consume "\<lambda>s. sb_fullmessage (snd s)" rs_ok
proof
  show "sb_fullmessage (snd (snd (rs_consume s c))) = sb_fullmessage (snd s) @ [c]" for s c
    by (rule rs_consume_log)
next
  fix s c s'
  assume ok: "rs_ok s" and step: "rs_consume s c = (Indeterminate, s')"
  obtain st b where s: "s = (st, b)" by (cases s)
  have "rs_ok (st, b\<lparr>sb_fullmessage := sb_fullmessage b @ [c]\<rparr>)"
    using ok by (simp add: rs_ok_def s)
  then have "keeps rs_ok (rs_consume s c)"
    unfolding s by (simp add: Let_def rs_line_ok rs_header_ok rs_body_ok)
  then show "rs_ok s'" using step by simp
qed

declare rs_consume.simps [simp del]

subsection \<open>Reading a printed response\<close>

lemmas rs_eval = rs_consume.simps Let_def rs_consume_line_def rs_consume_header_def rs_consume_body_def
  is_ctl_text

lemma is_digit_val:
  assumes "is_digit (char_int c)"
  shows "char_int c = 48 + int (digit_val c)" "digit_val c < 10"
proof -
  have e: "(of_char c :: int) = int (of_char c)" by (simp only: of_nat_of_char)
  define n where "n = (of_char c :: nat)"
  have n: "n < 256" unfolding n_def by (rule nat_of_char_less_256)
  have "48 \<le> n" "n \<le> 57"
    using assms n unfolding is_digit_def char_int_def e n_def [symmetric] by (auto split: if_splits)
  then have "48 \<le> (of_char c :: nat)" "(of_char c :: nat) \<le> 57"
    unfolding n_def .
  then show "char_int c = 48 + int (digit_val c)" "digit_val c < 10"
    unfolding char_int_def e by (simp_all add: digit_val_def)
qed

lemma add_digit:
  assumes "is_digit (char_int c)"
  shows "word_of_int v * 10 + ascii_digit c - ascii_digit CHR ''0''
      = (word_of_int (v * 10 + int (digit_val c)) :: i32)"
    "ascii_digit c - ascii_digit CHR ''0'' = (word_of_int (int (digit_val c)) :: i32)"
proof -
  have z: "char_int CHR ''0'' = 48" by (simp add: char_int_def)
  have "word_of_int v * 10 + ascii_digit c - ascii_digit CHR ''0''
      = (word_of_int (v * 10 + char_int c - 48) :: i32)"
    by (simp add: z wi_hom_syms)
  then show "word_of_int v * 10 + ascii_digit c - ascii_digit CHR ''0''
      = (word_of_int (v * 10 + int (digit_val c)) :: i32)"
    by (simp only: is_digit_val(1) [OF assms]) simp
  show "ascii_digit c - ascii_digit CHR ''0'' = (word_of_int (int (digit_val c)) :: i32)"
    by (simp add: z is_digit_val(1) [OF assms])
qed

definition status_line :: "char \<Rightarrow> char \<Rightarrow> string \<Rightarrow> string \<Rightarrow> string" where
  "status_line major minor code reason =
     ''HTTP/'' @ [major] @ ''.'' @ [minor] @ '' '' @ code @ '' '' @ reason @ crlf"

definition reason_text :: "string \<Rightarrow> bool" where
  "reason_text s \<longleftrightarrow> (\<forall>c\<in>set s. token_char c \<or> c = SP)"

definition code_text :: "string \<Rightarrow> bool" where
  "code_text s \<longleftrightarrow> length s = 3 \<and> (\<forall>c\<in>set s. is_digit (char_int c))
     \<and> digit_val (s ! 0) \<in> {1..5}"

lemma feed_reason:
  "reason_text s \<Longrightarrow> feed rs_consume (Rs_reason_phrase, b) s =
   Some (Rs_reason_phrase, b\<lparr>sb_reasonphrase := sb_reasonphrase b @ s,
     sb_fullmessage := sb_fullmessage b @ s\<rparr>)"
proof (induction s arbitrary: b)
  case Nil
  then show ?case by simp
next
  case (Cons c s)
  then have c: "token_char c \<or> c = SP" and s: "reason_text s" by (auto simp: reason_text_def)
  have sp: "is_char (char_int SP)" by (simp add: is_char_def char_int_def)
  have "rs_consume (Rs_reason_phrase, b) c = (Indeterminate, Rs_reason_phrase,
      b\<lparr>sb_reasonphrase := sb_reasonphrase b @ [c], sb_fullmessage := sb_fullmessage b @ [c]\<rparr>)"
    using c
  proof
    assume "token_char c"
    moreover from this have "c \<noteq> CR" by (rule token_char_not)
    ultimately show ?thesis by (simp add: rs_eval token_char_tests)
  next
    assume "c = SP"
    then show ?thesis by (simp add: rs_eval sp text_char_facts)
  qed
  with Cons s show ?case by (simp add: feed_step)
qed

lemma feed_status_line:
  assumes "is_digit (char_int major)" "is_digit (char_int minor)" "code_text code" "reason_text reason"
  shows "feed rs_consume (Rs_http_version_h, new_response_builder junk) (status_line major minor code reason) =
    Some (Rs_header_line_start, (new_response_builder junk)
      \<lparr>sb_http_version_major := word_of_int (int (digit_val major)),
       sb_http_version_minor := word_of_int (int (digit_val minor)),
       sb_code := word_of_int (value_of 10 code), sb_reasonphrase := reason,
       sb_fullmessage := status_line major minor code reason\<rparr>)"
proof -
  obtain x y z where code: "code = [x, y, z]"
    using assms(3) by (auto simp: code_text_def length_Suc_conv numeral_3_eq_3)
  have dig: "is_digit (char_int x)" "is_digit (char_int y)" "is_digit (char_int z)"
    and x: "1 \<le> digit_val x" "digit_val x \<le> 5"
    using assms(3) by (simp_all add: code_text_def code)
  have first: "char_int CHR ''1'' \<le> char_int x" "char_int x \<le> char_int CHR ''5''"
    unfolding is_digit_val(1) [OF dig(1)] using x by (simp_all add: char_int_def)
  have digit: "ascii_digit d = ascii_digit CHR ''0'' + word_of_int (int (digit_val d))"
    if "is_digit (char_int d)" for d
    using add_digit(2) [OF that] by (simp add: diff_eq_eq add.commute)
  define b1 where "b1 = (new_response_builder junk)
      \<lparr>sb_http_version_major := word_of_int (int (digit_val major)),
       sb_http_version_minor := word_of_int (int (digit_val minor)),
       sb_fullmessage := ''HTTP/'' @ [major] @ ''.'' @ [minor] @ '' ''\<rparr>"
  define b2 where "b2 = b1\<lparr>sb_code := word_of_int (value_of 10 code),
       sb_fullmessage := sb_fullmessage b1 @ code @ '' ''\<rparr>"
  have version: "feed rs_consume (Rs_http_version_h, new_response_builder junk)
      (''HTTP/'' @ [major] @ ''.'' @ [minor] @ '' '') = Some (Rs_status_code_1, b1)"
    using assms(1,2) by (simp add: rs_eval add_digit(2) new_response_builder_def b1_def)
  have num: "feed rs_consume (Rs_status_code_1, b1) (code @ '' '') = Some (Rs_reason_phrase, b2)"
    using dig first digit by (simp add: rs_eval code value_of_def b2_def algebra_simps)
  have reason: "feed rs_consume (Rs_reason_phrase, b2) reason = Some (Rs_reason_phrase,
      b2\<lparr>sb_reasonphrase := reason, sb_fullmessage := sb_fullmessage b2 @ reason\<rparr>)"
    using feed_reason [OF assms(4), of b2] by (simp add: b2_def b1_def new_response_builder_def)
  have line: "status_line major minor code reason =
      (''HTTP/'' @ [major] @ ''.'' @ [minor] @ '' '') @ (code @ '' '') @ reason @ crlf"
    by (simp add: status_line_def)
  show ?thesis
    unfolding line
    by (rule feed_appendI [OF version], rule feed_appendI [OF num], rule feed_appendI [OF reason])
      (simp add: rs_eval b2_def b1_def)
qed

lemma feed_rs_header_name:
  "\<forall>c\<in>set nm. token_char c \<Longrightarrow> sb_headers b = hs @ [h] \<Longrightarrow>
   feed rs_consume (Rs_header_name, b) nm =
   Some (Rs_header_name,
         b\<lparr>sb_headers := hs @ [h\<lparr>h_name := h_name h @ nm\<rparr>], sb_fullmessage := sb_fullmessage b @ nm\<rparr>)"
proof (induction nm arbitrary: b h)
  case Nil
  then show ?case by simp
next
  case (Cons c nm)
  then have "token_char c" "c \<noteq> CHR '':''" by (auto simp: byte_class)
  then have "rs_consume (Rs_header_name, b) c = (Indeterminate, Rs_header_name,
      b\<lparr>sb_headers := hs @ [h\<lparr>h_name := h_name h @ [c]\<rparr>], sb_fullmessage := sb_fullmessage b @ [c]\<rparr>)"
    by (simp add: rs_eval token_char_tests Cons.prems)
  with Cons show ?case by (simp add: feed_step)
qed

lemma feed_rs_header_value:
  "value_text v \<Longrightarrow> sb_headers b = hs @ [h] \<Longrightarrow>
   feed rs_consume (Rs_header_value, b) v =
   Some (Rs_header_value,
         b\<lparr>sb_headers := hs @ [h\<lparr>h_value := h_value h @ v\<rparr>], sb_fullmessage := sb_fullmessage b @ v\<rparr>)"
proof (induction v arbitrary: b h)
  case Nil
  then show ?case by simp
next
  case (Cons c v)
  then have "text_char c" "c \<noteq> CR" "value_text v" by (auto simp: value_text_def byte_class)
  then have "rs_consume (Rs_header_value, b) c = (Indeterminate, Rs_header_value,
      b\<lparr>sb_headers := hs @ [h\<lparr>h_value := h_value h @ [c]\<rparr>], sb_fullmessage := sb_fullmessage b @ [c]\<rparr>)"
    by (simp add: rs_eval Cons.prems)
  with Cons \<open>value_text v\<close> show ?case by (simp add: feed_step)
qed

definition is_chunked :: "header \<Rightarrow> bool" where
  "is_chunked h \<longleftrightarrow>
     strcasecmp_eq (h_name h) ''Transfer-Encoding'' \<and> strcasecmp_eq (h_value h) ''chunked''"

text \<open>The content size after some headers, from the size before them.\<close>

definition declared_from :: "i32 \<Rightarrow> header list \<Rightarrow> i32" where
  "declared_from n hs = foldl (\<lambda>n h. if is_content_length h
     then (case stoi 10 (h_value h) of Inr v \<Rightarrow> word_of_int v | Inl e \<Rightarrow> n) else n) n hs"

lemma declared_from_Nil [simp]: "declared_from n [] = n"
  by (simp add: declared_from_def)

lemma declared_from_append: "declared_from n (hs @ ks) = declared_from (declared_from n hs) ks"
  by (simp add: declared_from_def)

lemma declared_from_0: "declared_from 0 hs = declared_length hs"
  by (simp add: declared_from_def declared_length_def)

text \<open>What a header line does to the builder, apart from the log.\<close>

definition add_header :: "header \<Rightarrow> response_builder \<Rightarrow> response_builder" where
  "add_header h b = b\<lparr>sb_headers := sb_headers b @ [h],
     sb_contentsize := declared_from (sb_contentsize b) [h],
     sb_chunked := sb_chunked b \<or> is_chunked h, sb_keep_alive := sb_keep_alive b \<or> is_keep_alive h,
     sb_fullmessage := sb_fullmessage b @ header_line h\<rparr>"

lemma rs_end_header_eval:
  assumes "header_accepted h" "sb_headers b = hs @ [h]"
  shows "rs_end_header b = (Indeterminate, Rs_expecting_newline_2,
     b\<lparr>sb_contentsize := declared_from (sb_contentsize b) [h],
       sb_chunked := sb_chunked b \<or> is_chunked h, sb_keep_alive := sb_keep_alive b \<or> is_keep_alive h\<rparr>)"
proof (cases "is_content_length h")
  case True
  then obtain k where k: "stoi 10 (h_value h) = Inr k" "0 \<le> k"
    using assms(1) by (auto simp: header_accepted_def)
  have r: "in_int_range k" by (rule stoi_in_range [OF k(1)])
  show ?thesis
    using True k r by (auto simp: rs_end_header_def Let_def assms(2) is_content_length_def
        reserve_throws_iff sint_of_int_i32 declared_from_def is_keep_alive_def is_chunked_def)
next
  case False
  then show ?thesis
    by (auto simp: rs_end_header_def Let_def assms(2) is_content_length_def declared_from_def
        is_keep_alive_def is_chunked_def)
qed

lemma feed_rs_header_line:
  assumes "header_accepted h"
  shows "feed rs_consume (Rs_header_line_start, b) (header_line h) =
   Some (Rs_header_line_start, add_header h b)"
proof -
  obtain nm v where h: "h = \<lparr>h_name = nm, h_value = v\<rparr>" by (cases h)
  have nm: "token nm" and v: "value_text v"
    using assms(1) by (simp_all add: header_accepted_def header_ok_def h)
  obtain c cs where cs: "nm = c # cs" using nm by (cases nm) (auto simp: token_def)
  have c: "token_char c" "\<forall>d\<in>set cs. token_char d" using nm by (auto simp: token_def cs)
  define b1 where "b1 = b\<lparr>sb_headers := sb_headers b @ [\<lparr>h_name = [c], h_value = []\<rparr>],
     sb_fullmessage := sb_fullmessage b @ [c]\<rparr>"
  define b2 where "b2 = b\<lparr>sb_headers := sb_headers b @ [h],
     sb_fullmessage := sb_fullmessage b @ nm @ '': '' @ v\<rparr>"
  have first: "rs_consume (Rs_header_line_start, b) c = (Indeterminate, Rs_header_name, b1)"
    using c(1) token_char_not [of c] by (simp add: rs_eval token_char_tests b1_def)
  have "feed rs_consume (Rs_header_line_start, b) nm = Some (Rs_header_name,
      b\<lparr>sb_headers := sb_headers b @ [\<lparr>h_name = nm, h_value = []\<rparr>],
        sb_fullmessage := sb_fullmessage b @ nm\<rparr>)"
    unfolding cs feed_step [of rs_consume, OF first] by (simp add: feed_rs_header_name c b1_def)
  then have upto: "feed rs_consume (Rs_header_line_start, b) (nm @ '': '' @ v) =
      Some (Rs_header_value, b2)"
    by (simp add: feed_append rs_eval feed_rs_header_value v b2_def h)
  have line: "header_line h = (nm @ '': '' @ v) @ crlf"
    by (simp add: header_line_def h)
  have fin: "rs_end_header (b2\<lparr>sb_fullmessage := sb_fullmessage b2 @ [CR]\<rparr>) =
      (Indeterminate, Rs_expecting_newline_2,
       b2\<lparr>sb_fullmessage := sb_fullmessage b2 @ [CR],
         sb_contentsize := declared_from (sb_contentsize b2) [h],
         sb_chunked := sb_chunked b2 \<or> is_chunked h,
         sb_keep_alive := sb_keep_alive b2 \<or> is_keep_alive h\<rparr>)"
    by (subst rs_end_header_eval [OF assms]) (simp_all add: b2_def)
  show ?thesis
    unfolding line
    by (rule feed_appendI [OF upto])
      (simp add: rs_eval fin, simp add: add_header_def b2_def line)
qed

lemma feed_rs_header_lines:
  "\<forall>h\<in>set hs. header_accepted h \<Longrightarrow>
   feed rs_consume (Rs_header_line_start, b) (concat (map header_line hs)) =
   Some (Rs_header_line_start, fold add_header hs b)"
  by (induction hs arbitrary: b) (simp_all add: feed_append feed_rs_header_line)

lemma add_headers:
  "fold add_header hs b = b\<lparr>sb_headers := sb_headers b @ hs,
     sb_contentsize := declared_from (sb_contentsize b) hs,
     sb_chunked := sb_chunked b \<or> (\<exists>h\<in>set hs. is_chunked h),
     sb_keep_alive := sb_keep_alive b \<or> (\<exists>h\<in>set hs. is_keep_alive h),
     sb_fullmessage := sb_fullmessage b @ concat (map header_line hs)\<rparr>"
proof (induction hs arbitrary: b)
  case Nil
  then show ?case by simp
next
  case (Cons h hs)
  have "declared_from n (h # hs) = declared_from (declared_from n [h]) hs" for n
    using declared_from_append [of n "[h]" hs] by simp
  then show ?case
    unfolding fold_simps Cons by (simp add: add_header_def disj_assoc)
qed

text \<open>A body of known size.\<close>

lemma rs_parse_from_append:
  "feed rs_consume s xs = Some t \<Longrightarrow> xs \<noteq> [] \<Longrightarrow>
   rs_parse_from v s (xs @ ys) = rs_parse_from Indeterminate t ys"
proof (induction xs arbitrary: s v)
  case Nil
  then show ?case by simp
next
  case (Cons c cs)
  obtain r s' where st: "rs_consume s c = (r, s')" by (cases "rs_consume s c")
  with Cons.prems have r: "r = Indeterminate" and f: "feed rs_consume s' cs = Some t"
    by (simp_all split: result_type.splits)
  show ?case
  proof (cases cs)
    case Nil
    with st r f show ?thesis by simp
  next
    case (Cons d ds)
    with st r f Cons.IH [of s' Indeterminate] show ?thesis by simp
  qed
qed

lemma rs_parse_append:
  "feed rs_consume s xs = Some t \<Longrightarrow> rs_parse s (xs @ ys) = rs_parse t ys"
  unfolding rs_parse_def by (cases "xs = []") (auto simp: rs_parse_from_append)

lemma rs_parse_body_append:
  assumes "int (length body) = sint (sb_contentsize b)" "0 < sint (sb_contentsize b)"
    "\<not> sb_chunked b"
  shows "rs_parse_from v (Rs_expecting_body, b) (body @ rest) =
   rs_parse_from Good (Rs_expecting_body, b\<lparr>sb_contentsize := 0, sb_body := sb_body b @ body,
      sb_fullmessage := sb_fullmessage b @ body\<rparr>) rest"
  using assms
proof (induction body arbitrary: b v)
  case Nil
  then show ?case by simp
next
  case (Cons c body)
  define n where "n = sb_contentsize b"
  have n: "int (length (c # body)) = sint n" "0 < sint n" using Cons.prems by (simp_all add: n_def)
  have dec: "sint (n - 1) = sint n - 1" by (rule sint_dec [OF n(2)])
  define b' where "b' = b\<lparr>sb_contentsize := n - 1, sb_body := sb_body b @ [c],
      sb_fullmessage := sb_fullmessage b @ [c]\<rparr>"
  have step: "rs_consume (Rs_expecting_body, b) c =
      (if n - 1 = 0 then Good else Indeterminate, Rs_expecting_body, b')"
    by (simp add: rs_eval b'_def n_def)
  show ?case
  proof (cases body)
    case Nil
    with n dec have "sint (n - 1) = 0" by simp
    then have "n - 1 = 0" by (simp only: signed_eq_0_iff)
    with Nil step Cons.prems(3) show ?thesis by (simp add: b'_def)
  next
    case (Cons d ds)
    with n dec have pos: "0 < sint (n - 1)" by simp
    then have nz: "n - 1 \<noteq> 0" by auto
    have "int (length body) = sint (n - 1)" using n dec by simp
    then show ?thesis
      using step nz Cons.IH [of b' Indeterminate] pos Cons.prems(3) by (simp add: b'_def)
  qed
qed

text \<open>No proper part of the body is taken for the whole.\<close>

lemma feed_rs_body:
  assumes "int (length body) < sint (sb_contentsize b)"
  shows "feed rs_consume (Rs_expecting_body, b) body =
   Some (Rs_expecting_body, b\<lparr>sb_contentsize := sb_contentsize b - word_of_int (int (length body)),
      sb_body := sb_body b @ body, sb_fullmessage := sb_fullmessage b @ body\<rparr>)"
  using assms
proof (induction body arbitrary: b)
  case Nil
  then show ?case by simp
next
  case (Cons c body)
  define n where "n = sb_contentsize b"
  have n: "int (length (c # body)) < sint n" using Cons.prems by (simp add: n_def)
  then have dec: "sint (n - 1) = sint n - 1" by (intro sint_dec) simp
  with n have nz: "n - 1 \<noteq> 0" by auto
  define b' where "b' = b\<lparr>sb_contentsize := n - 1, sb_body := sb_body b @ [c],
      sb_fullmessage := sb_fullmessage b @ [c]\<rparr>"
  have step: "rs_consume (Rs_expecting_body, b) c = (Indeterminate, Rs_expecting_body, b')"
    using nz by (simp add: rs_eval b'_def n_def)
  have "int (length body) < sint (sb_contentsize b')" using n dec by (simp add: b'_def)
  from Cons.IH [OF this] show ?case
    unfolding feed_step [of rs_consume, OF step] by (simp add: b'_def n_def algebra_simps)
qed

lemma rs_parse_body:
  assumes "int (length body) = sint (sb_contentsize b)" "0 < sint (sb_contentsize b)"
    "\<not> sb_chunked b"
  shows "rs_parse_from v (Rs_expecting_body, b) body =
   (Good, (Rs_expecting_body, b\<lparr>sb_contentsize := 0, sb_body := sb_body b @ body,
      sb_fullmessage := sb_fullmessage b @ body\<rparr>), [])"
  using rs_parse_body_append [OF assms, of v "[]"] by simp

text \<open>A chunked body: each chunk is its size in hexadecimal, the data, and line ends between.\<close>

definition hex_text :: "string \<Rightarrow> bool" where
  "hex_text s \<longleftrightarrow> s \<noteq> [] \<and> (\<forall>c\<in>set s. is_hex (char_int c))"

definition chunk_ok :: "string \<times> string \<Rightarrow> bool" where
  "chunk_ok ch \<longleftrightarrow> (case ch of (sz, data) \<Rightarrow>
     hex_text sz \<and> data \<noteq> [] \<and> stoi 16 sz = Inr (int (length data)))"

definition chunk_text :: "string \<times> string \<Rightarrow> string" where
  "chunk_text ch = fst ch @ crlf @ snd ch @ crlf"

lemma not_hex_CR: "\<not> is_hex (char_int CR)"
  by (simp add: is_hex_def is_digit_def char_int_def)

lemma feed_chunk_size:
  "\<forall>c\<in>set s. is_hex (char_int c) \<Longrightarrow> feed rs_consume (Rs_chunk_size, b) s =
   Some (Rs_chunk_size, b\<lparr>sb_chunksizehex := sb_chunksizehex b @ s, sb_fullmessage := sb_fullmessage b @ s\<rparr>)"
proof (induction s arbitrary: b)
  case Nil
  then show ?case by simp
next
  case (Cons c s)
  then have "rs_consume (Rs_chunk_size, b) c = (Indeterminate, Rs_chunk_size,
      b\<lparr>sb_chunksizehex := sb_chunksizehex b @ [c], sb_fullmessage := sb_fullmessage b @ [c]\<rparr>)"
    by (simp add: rs_eval)
  with Cons show ?case by (simp add: feed_step)
qed

lemma feed_chunk_size_start:
  assumes "hex_text s"
  shows "feed rs_consume (Rs_chunk_size_start, b) s =
   Some (Rs_chunk_size, b\<lparr>sb_chunksizehex := s, sb_fullmessage := sb_fullmessage b @ s\<rparr>)"
proof -
  obtain c cs where s: "s = c # cs" using assms by (cases s) (auto simp: hex_text_def)
  have "is_hex (char_int c)" "\<forall>d\<in>set cs. is_hex (char_int d)" using assms by (auto simp: hex_text_def s)
  then show ?thesis
    by (simp add: s feed_chunk_size) (simp add: rs_eval feed_chunk_size)
qed

lemma feed_chunk_data:
  assumes "int (length data) \<le> sint (sb_chunksize b)"
  shows "feed rs_consume (Rs_expecting_chunk, b) data =
   Some (Rs_expecting_chunk, b\<lparr>sb_chunksize := sb_chunksize b - word_of_int (int (length data)),
      sb_body := sb_body b @ data, sb_fullmessage := sb_fullmessage b @ data\<rparr>)"
  using assms
proof (induction data arbitrary: b)
  case Nil
  then show ?case by simp
next
  case (Cons c data)
  define n where "n = sb_chunksize b"
  have n: "int (length (c # data)) \<le> sint n" using Cons.prems by (simp add: n_def)
  then have dec: "sint (n - 1) = sint n - 1" by (intro sint_dec) simp
  then have "n - 1 \<noteq> - 1" using n by auto
  then have "rs_consume (Rs_expecting_chunk, b) c = (Indeterminate, Rs_expecting_chunk,
      b\<lparr>sb_chunksize := n - 1, sb_body := sb_body b @ [c], sb_fullmessage := sb_fullmessage b @ [c]\<rparr>)"
    by (simp add: rs_eval n_def)
  then show ?case
    using Cons.IH [of "b\<lparr>sb_chunksize := n - 1, sb_body := sb_body b @ [c],
        sb_fullmessage := sb_fullmessage b @ [c]\<rparr>"] n dec
    by (simp add: feed_step n_def algebra_simps)
qed

lemma feed_chunk:
  assumes "chunk_ok (sz, data)"
  shows "feed rs_consume (Rs_chunk_size_start, b) (chunk_text (sz, data)) =
   Some (Rs_chunk_size_start, b\<lparr>sb_body := sb_body b @ data,
      sb_fullmessage := sb_fullmessage b @ chunk_text (sz, data),
      sb_chunksizehex := sz, sb_chunksize := - 1\<rparr>)"
proof -
  define n where "n = (word_of_nat (length data) :: i32)"
  have sz: "hex_text sz" "data \<noteq> []" "stoi 16 sz = Inr (int (length data))"
    using assms by (auto simp: chunk_ok_def)
  have sint: "sint n = int (length data)"
    using sint_of_int_i32 [OF stoi_in_range [OF sz(3)]] by (simp add: n_def)
  then have "n \<noteq> 0" using sz(2) by auto
  define b1 where "b1 = b\<lparr>sb_chunksizehex := sz, sb_chunksize := n,
      sb_fullmessage := sb_fullmessage b @ sz @ crlf\<rparr>"
  have head: "feed rs_consume (Rs_chunk_size_start, b) (sz @ crlf) = Some (Rs_expecting_chunk, b1)"
    using \<open>n \<noteq> 0\<close>
    by (simp add: feed_append feed_chunk_size_start sz(1))
      (simp add: rs_eval not_hex_CR sz(3) b1_def flip: n_def)
  have data: "feed rs_consume (Rs_expecting_chunk, b1) data = Some (Rs_expecting_chunk,
      b1\<lparr>sb_chunksize := 0, sb_body := sb_body b @ data, sb_fullmessage := sb_fullmessage b1 @ data\<rparr>)"
    using feed_chunk_data [of data b1] by (simp add: b1_def sint) (simp add: n_def)
  have whole: "chunk_text (sz, data) = (sz @ crlf) @ data @ crlf"
    by (simp add: chunk_text_def)
  show ?thesis
    unfolding whole
    by (rule feed_appendI [OF head], rule feed_appendI [OF data]) (simp add: rs_eval b1_def)
qed

lemma feed_chunks:
  "\<forall>ch\<in>set chunks. chunk_ok ch \<Longrightarrow>
   \<exists>hx n. feed rs_consume (Rs_chunk_size_start, b) (concat (map chunk_text chunks)) =
   Some (Rs_chunk_size_start, b\<lparr>sb_body := sb_body b @ concat (map snd chunks),
      sb_fullmessage := sb_fullmessage b @ concat (map chunk_text chunks),
      sb_chunksizehex := hx, sb_chunksize := n\<rparr>)"
proof (induction chunks arbitrary: b)
  case Nil
  then show ?case
    by (intro exI [of _ "sb_chunksizehex b"] exI [of _ "sb_chunksize b"]) simp
next
  case (Cons ch chunks)
  obtain sz data where ch: "ch = (sz, data)" by (cases ch)
  have ok: "chunk_ok (sz, data)" using Cons.prems ch by simp
  define b' where "b' = b\<lparr>sb_body := sb_body b @ data,
      sb_fullmessage := sb_fullmessage b @ chunk_text (sz, data),
      sb_chunksizehex := sz, sb_chunksize := - 1\<rparr>"
  obtain hx n where "feed rs_consume (Rs_chunk_size_start, b') (concat (map chunk_text chunks)) =
   Some (Rs_chunk_size_start, b'\<lparr>sb_body := sb_body b' @ concat (map snd chunks),
      sb_fullmessage := sb_fullmessage b' @ concat (map chunk_text chunks),
      sb_chunksizehex := hx, sb_chunksize := n\<rparr>)"
    using Cons.IH [of b'] Cons.prems by auto
  then show ?case
    unfolding ch list.map concat.simps
    by (intro exI [of _ hx] exI [of _ n], intro feed_appendI [OF feed_chunk [OF ok]])
      (simp add: b'_def)
qed

lemma rs_parse_last_chunk:
  assumes "hex_text z" "stoi 16 z = Inr 0" "sb_chunked b"
  shows "rs_parse (Rs_chunk_size_start, b) (z @ [CR] @ rest) =
   (Good, (Rs_expecting_newline_4, b\<lparr>sb_chunksizehex := z, sb_chunksize := 0,
      sb_fullmessage := sb_fullmessage b @ z @ [CR]\<rparr>), rest)"
proof -
  define b' where "b' = b\<lparr>sb_chunksizehex := z, sb_fullmessage := sb_fullmessage b @ z\<rparr>"
  have "rs_parse (Rs_chunk_size_start, b) (z @ [CR] @ rest) = rs_parse (Rs_chunk_size, b') ([CR] @ rest)"
    unfolding b'_def by (rule rs_parse_append [OF feed_chunk_size_start [OF assms(1)]])
  also have "\<dots> = (Good, (Rs_expecting_newline_4, b'\<lparr>sb_chunksize := 0,
      sb_fullmessage := sb_fullmessage b' @ [CR]\<rparr>), rest)"
    using assms(2,3) by (simp add: rs_parse_def rs_eval not_hex_CR b'_def)
  finally show ?thesis by (simp add: b'_def)
qed

subsection \<open>Complete responses\<close>

definition head_builder :: "i32 \<Rightarrow> char \<Rightarrow> char \<Rightarrow> string \<Rightarrow> string \<Rightarrow> response_builder" where
  "head_builder junk major minor code reason = (new_response_builder junk)
      \<lparr>sb_http_version_major := word_of_int (int (digit_val major)),
       sb_http_version_minor := word_of_int (int (digit_val minor)),
       sb_code := word_of_int (value_of 10 code), sb_reasonphrase := reason,
       sb_fullmessage := status_line major minor code reason\<rparr>"

definition line_ok :: "char \<Rightarrow> char \<Rightarrow> string \<Rightarrow> string \<Rightarrow> bool" where
  "line_ok major minor code reason \<longleftrightarrow> is_digit (char_int major) \<and> is_digit (char_int minor)
     \<and> code_text code \<and> reason_text reason"

lemma feed_rs_head:
  assumes "line_ok major minor code reason" "\<forall>h\<in>set hs. header_accepted h"
  shows "feed rs_consume (new_response_parser, new_response_builder junk)
      (status_line major minor code reason @ concat (map header_line hs)) =
      Some (Rs_header_line_start, fold add_header hs (head_builder junk major minor code reason))"
  using assms unfolding new_response_parser_def line_ok_def head_builder_def
  by (intro feed_appendI [OF feed_status_line]) (simp_all add: feed_rs_header_lines)

lemma rs_parse_head:
  assumes "line_ok major minor code reason" "\<forall>h\<in>set hs. header_accepted h"
  shows "rs_parse (new_response_parser, new_response_builder junk)
      (status_line major minor code reason @ concat (map header_line hs) @ crlf @ rest) =
    rs_parse (Rs_header_line_start, fold add_header hs (head_builder junk major minor code reason))
      (crlf @ rest)"
  using rs_parse_append [OF feed_rs_head [OF assms], of junk "crlf @ rest"] by simp

lemma head_builder_simps [simp]:
  "sb_chunked (head_builder junk a b c r) = False"
  "sb_contentsize (head_builder junk a b c r) = junk"
  "sb_headers (head_builder junk a b c r) = []"
  "sb_body (head_builder junk a b c r) = []"
  "sb_code (head_builder junk a b c r) = word_of_int (value_of 10 c)"
  by (simp_all add: head_builder_def new_response_builder_def)

text \<open>
  A response whose last \<open>Content-Length\<close> is the size of its body is read completely, and the
  builder holds its code, its headers and its body.
\<close>

lemma rs_parse_sized:
  assumes "line_ok major minor code reason" "\<forall>h\<in>set hs. header_accepted h"
    and "\<forall>h\<in>set hs. \<not> is_chunked h"
    and "sint (declared_from junk hs) = int (length body)"
  shows "\<exists>st b. rs_parse (new_response_parser, new_response_builder junk)
      (status_line major minor code reason @ concat (map header_line hs) @ crlf @ body) =
      (Good, (st, b), [])
    \<and> sb_code b = word_of_int (value_of 10 code) \<and> sb_headers b = hs \<and> sb_body b = body"
proof -
  define b0 where "b0 = fold add_header hs (head_builder junk major minor code reason)"
  have b0: "sb_chunked b0 = False" "sb_contentsize b0 = declared_from junk hs" "sb_headers b0 = hs"
      "sb_body b0 = []" "sb_code b0 = word_of_int (value_of 10 code)"
    using assms(3) by (auto simp: b0_def add_headers)
  note start = rs_parse_head [OF assms(1,2), of junk body, folded b0_def]
  show ?thesis
  proof (cases "body = []")
    case True
    with assms(4) have "sint (declared_from junk hs) = 0" by simp
    then have "declared_from junk hs = 0" by (simp only: signed_eq_0_iff)
    then show ?thesis
      unfolding start using True by (simp add: rs_parse_def rs_eval b0)
  next
    case False
    then have pos: "0 < sint (declared_from junk hs)" using assms(4) by simp
    then have nz: "declared_from junk hs \<noteq> 0" by auto
    define b1 where "b1 = b0\<lparr>sb_fullmessage := sb_fullmessage b0 @ crlf\<rparr>"
    have "rs_parse (Rs_header_line_start, b0) (crlf @ body) = rs_parse_from Indeterminate (Rs_expecting_body, b1) body"
      using nz by (simp add: rs_parse_def rs_eval b0 b1_def)
    then show ?thesis
      unfolding start
      using rs_parse_body [of body b1 Indeterminate] pos assms(4) by (simp add: b1_def b0)
  qed
qed

text \<open>\<dots>and no proper part of it is: every shorter read leaves the parser waiting.\<close>

lemma feed_sized:
  assumes "line_ok major minor code reason" "\<forall>h\<in>set hs. header_accepted h"
    and "\<forall>h\<in>set hs. \<not> is_chunked h"
    and "sint (declared_from junk hs) = int (length body)"
  shows "\<exists>u. feed rs_consume (new_response_parser, new_response_builder junk)
      (butlast (status_line major minor code reason @ concat (map header_line hs) @ crlf @ body)) = Some u"
proof -
  define b0 where "b0 = fold add_header hs (head_builder junk major minor code reason)"
  have b0: "sb_chunked b0 = False" "sb_contentsize b0 = declared_from junk hs"
    using assms(3) by (auto simp: b0_def add_headers)
  note start = feed_rs_head [OF assms(1,2), of junk, folded b0_def]
  show ?thesis
  proof (cases "body = []")
    case True
    have "butlast (status_line major minor code reason @ concat (map header_line hs) @ crlf @ body) =
        (status_line major minor code reason @ concat (map header_line hs)) @ [CR]"
      using True by (simp add: butlast_append)
    moreover have "feed rs_consume (Rs_header_line_start, b0) [CR] =
        Some (Rs_expecting_newline_3, b0\<lparr>sb_fullmessage := sb_fullmessage b0 @ [CR]\<rparr>)"
      by (simp add: rs_eval)
    ultimately show ?thesis using feed_appendI [OF start] by metis
  next
    case False
    then have split: "butlast (status_line major minor code reason @ concat (map header_line hs) @ crlf @ body) =
        (status_line major minor code reason @ concat (map header_line hs)) @ crlf @ butlast body"
      by (simp add: butlast_append)
    define b1 where "b1 = b0\<lparr>sb_fullmessage := sb_fullmessage b0 @ crlf\<rparr>"
    have "0 < sint (declared_from junk hs)" using assms(4) False by simp
    then have "declared_from junk hs \<noteq> 0" by auto
    then have "feed rs_consume (Rs_header_line_start, b0) crlf = Some (Rs_expecting_body, b1)"
      by (simp add: rs_eval b0 b1_def)
    moreover have "int (length (butlast body)) < sint (sb_contentsize b1)"
      using assms(4) False by (cases body) (auto simp: b1_def b0)
    ultimately show ?thesis
      unfolding split using feed_appendI [OF start] feed_appendI [of rs_consume] feed_rs_body by metis
  qed
qed

text \<open>
  A chunked response is read up to the carriage return after the last chunk size, and the body
  is the concatenation of the chunks. What follows is left unread.
\<close>

lemma rs_parse_chunked:
  assumes "line_ok major minor code reason" "\<forall>h\<in>set hs. header_accepted h"
    and "\<exists>h\<in>set hs. is_chunked h" "\<forall>ch\<in>set chunks. chunk_ok ch"
    and "hex_text z" "stoi 16 z = Inr 0"
  shows "\<exists>st b. rs_parse (new_response_parser, new_response_builder junk)
      (status_line major minor code reason @ concat (map header_line hs) @ crlf
       @ concat (map chunk_text chunks) @ z @ [CR] @ rest) = (Good, (st, b), rest)
    \<and> sb_code b = word_of_int (value_of 10 code) \<and> sb_headers b = hs
    \<and> sb_body b = concat (map snd chunks)"
proof -
  define b0 where "b0 = fold add_header hs (head_builder junk major minor code reason)"
  have b0: "sb_chunked b0" "sb_headers b0 = hs" "sb_body b0 = []"
      "sb_code b0 = word_of_int (value_of 10 code)"
    using assms(3) by (auto simp: b0_def add_headers)
  define b1 where "b1 = b0\<lparr>sb_fullmessage := sb_fullmessage b0 @ crlf\<rparr>"
  have "feed rs_consume (Rs_header_line_start, b0) crlf = Some (Rs_chunk_size_start, b1)"
    by (simp add: rs_eval b0 b1_def)
  moreover obtain hx n where "feed rs_consume (Rs_chunk_size_start, b1) (concat (map chunk_text chunks)) =
     Some (Rs_chunk_size_start, b1\<lparr>sb_body := sb_body b1 @ concat (map snd chunks),
      sb_fullmessage := sb_fullmessage b1 @ concat (map chunk_text chunks),
      sb_chunksizehex := hx, sb_chunksize := n\<rparr>)" (is "_ = Some (_, ?b2)")
    using feed_chunks [OF assms(4)] by blast
  ultimately have "feed rs_consume (Rs_header_line_start, b0) (crlf @ concat (map chunk_text chunks)) =
      Some (Rs_chunk_size_start, ?b2)"
    by (intro feed_appendI)
  note upto = rs_parse_append [OF this, of "z @ [CR] @ rest"]
  have "sb_chunked ?b2" using b0 by (simp add: b1_def)
  from rs_parse_last_chunk [OF assms(5,6) this, of rest] show ?thesis
    using rs_parse_head [OF assms(1,2), of junk "concat (map chunk_text chunks) @ z @ [CR] @ rest"] upto b0
    by (simp add: b1_def flip: b0_def)
qed

end
