(* ===== verification/WireFormat.thy ===== *)
theory WireFormat
  imports ResponseParser
begin

text \<open>
  The responses of this server as another reader sees them. A component that answers with a body
  promises \<open>framed\<close> responses, the interface \<open>framed_responder\<close>; its client is whoever reads the
  bytes of \<open>to_buffers\<close>, here the program's own response parser, which gets the response back with
  the status that was written.
\<close>

lemma to_buffer_line:
  obtains code reason where "to_buffer s = status_line CHR ''1'' CHR ''0'' code reason"
    "line_ok CHR ''1'' CHR ''0'' code reason" "value_of 10 code = status_value (wire_status s)"
proof -
  have "\<exists>code reason. status_strings t = status_line CHR ''1'' CHR ''0'' code reason \<and>
      line_ok CHR ''1'' CHR ''0'' code reason \<and> value_of 10 code = status_value t"
    if t: "t \<in> {St_ok, St_bad_request, St_not_found, St_moved_temporarily}" for t
  proof -
    have digits: "is_digit (char_int CHR ''0'')" "is_digit (char_int CHR ''1'')"
      "is_digit (char_int CHR ''2'')" "is_digit (char_int CHR ''3'')" "is_digit (char_int CHR ''4'')"
      by (simp_all add: is_digit_def char_int_def)
    have reasons: "reason_text ''OK''" "reason_text ''Bad Request''" "reason_text ''Not Found''"
      "reason_text ''Moved Temporarily''"
      unfolding reason_text_def token_char_def is_tspecial_char_int
      by (simp_all add: is_char_def is_ctl_def char_int_def)
    have codes: "code_text ''200''" "code_text ''400''" "code_text ''404''" "code_text ''302''"
      using digits by (simp_all add: code_text_def digit_val_def)
    have ok: "line_ok CHR ''1'' CHR ''0'' code reason" if "code_text code" "reason_text reason" for code reason
      using that digits by (simp add: line_ok_def)
    have "status_strings St_ok = status_line CHR ''1'' CHR ''0'' ''200'' ''OK''"
      "status_strings St_bad_request = status_line CHR ''1'' CHR ''0'' ''400'' ''Bad Request''"
      "status_strings St_not_found = status_line CHR ''1'' CHR ''0'' ''404'' ''Not Found''"
      "status_strings St_moved_temporarily = status_line CHR ''1'' CHR ''0'' ''302'' ''Moved Temporarily''"
      by (simp_all add: status_line_def)
    moreover have "value_of 10 ''200'' = 200" "value_of 10 ''400'' = 400" "value_of 10 ''404'' = 404"
      "value_of 10 ''302'' = 302"
      by (simp_all add: value_of_def digit_val_def)
    ultimately show ?thesis
      using t ok [OF codes(1) reasons(1)] ok [OF codes(2) reasons(2)] ok [OF codes(3) reasons(3)]
        ok [OF codes(4) reasons(4)] by (metis empty_iff insert_iff status_value.simps(1,7,9,12))
  qed
  from this [OF wire_status_cases [of s]] show thesis
    using that unfolding to_buffer_wire_status by blast
qed

definition unchunked :: "Response \<Rightarrow> bool" where
  "unchunked r \<longleftrightarrow> (\<forall>kv \<in> set (rheaders_of r). \<not> is_chunked (header_of_entry kv))"

lemma declared_from_framed:
  assumes "\<forall>h \<in> set hs. is_content_length h \<longrightarrow> h_value h = size_string b"
    "\<exists>h \<in> set hs. is_content_length h" "int (length b) \<le> INT_MAX"
  shows "declared_from n hs = word_of_int (int (length b))"
proof -
  have num: "stoi 10 (size_string b) = Inr (int (length b))"
    unfolding size_string_def by (rule stoi_to_string) (simp_all add: in_int_range_def INT_MIN_def assms(3))
  have fixed: "declared_from (word_of_int (int (length b))) ks = word_of_int (int (length b))"
    if "\<forall>h \<in> set ks. is_content_length h \<longrightarrow> h_value h = size_string b" for ks
    using that by (induction ks) (simp_all add: declared_from_def num)
  show ?thesis
    using assms(1,2)
  proof (induction hs arbitrary: n)
    case Nil
    then show ?case by simp
  next
    case (Cons h hs)
    show ?case
    proof (cases "is_content_length h")
      case True
      then have "declared_from n (h # hs) = declared_from (word_of_int (int (length b))) hs"
        using Cons.prems(1) by (simp add: declared_from_def num)
      then show ?thesis using fixed Cons.prems(1) by simp
    next
      case False
      then have "declared_from n (h # hs) = declared_from n hs" by (simp add: declared_from_def)
      then show ?thesis using Cons False by auto
    qed
  qed
qed

lemma wire_read_back:
  assumes "framed r" "unchunked r" "int (length (rbody_of r)) \<le> INT_MAX"
  shows "\<exists>st b. rs_parse (new_response_parser, new_response_builder junk) (wire r) = (Good, (st, b), [])
    \<and> rs_build_response b = r\<lparr>code_of := wire_status (code_of r)\<rparr>
    \<and> (\<exists>u. feed rs_consume (new_response_parser, new_response_builder junk) (butlast (wire r)) = Some u)"
proof -
  let ?hs = "map header_of_entry (rheaders_of r)"
  obtain code reason where line: "to_buffer (code_of r) = status_line CHR ''1'' CHR ''0'' code reason"
    "line_ok CHR ''1'' CHR ''0'' code reason" "value_of 10 code = status_value (wire_status (code_of r))"
    by (rule to_buffer_line)
  have size: "stoi 10 (size_string (rbody_of r)) = Inr (int (length (rbody_of r)))"
    unfolding size_string_def
    by (rule stoi_to_string) (simp_all add: in_int_range_def INT_MIN_def assms(3))
  have lengths: "\<forall>h \<in> set ?hs. is_content_length h \<longrightarrow> h_value h = size_string (rbody_of r)"
    using assms(1) by (auto simp: framed_def is_content_length_def header_of_entry_def)
  have accepted: "\<forall>h \<in> set ?hs. header_accepted h"
    using assms(1) lengths size by (auto simp: header_accepted_def framed_def)
  have plain: "\<forall>h \<in> set ?hs. \<not> is_chunked h"
    using assms(2) by (simp add: unchunked_def)
  have "(''Content-Length'', size_string (rbody_of r)) \<in> set (rheaders_of r)"
    using assms(1) by (simp add: framed_def map_of_SomeD)
  then have "\<exists>h \<in> set ?hs. is_content_length h"
    by (force simp: is_content_length_def header_of_entry_def)
  from declared_from_framed [OF lengths this assms(3)]
  have sized: "sint (declared_from junk ?hs) = int (length (rbody_of r))"
    using sint_of_int_i32 [of "int (length (rbody_of r))"] assms(3)
    by (simp add: in_int_range_def INT_MIN_def)
  from rs_parse_sized [OF line(2) accepted plain sized]
  obtain st b where b: "rs_parse (new_response_parser, new_response_builder junk) (wire r) = (Good, (st, b), [])"
    "sb_code b = word_of_int (value_of 10 code)" "sb_headers b = ?hs" "sb_body b = rbody_of r"
    by (auto simp: wire_eq line(1))
  have "in_int_range (status_value (wire_status (code_of r)))"
    using wire_status_cases [of "code_of r"] by (auto simp: in_int_range_def INT_MIN_def INT_MAX_def)
  then have "status_cast (sint (sb_code b)) = wire_status (code_of r)"
    using wire_status_cases [of "code_of r"] status_cast_listed [of "wire_status (code_of r)"]
    by (auto simp: b(2) line(3) sint_of_int_i32 listed_statuses_def)
  moreover have "assign_headers (sb_headers b) = rheaders_of r"
    using assms(1) by (simp add: b(3) assign_headers_of_entries framed_def)
  ultimately have "rs_build_response b = r\<lparr>code_of := wire_status (code_of r)\<rparr>"
    by (simp add: rs_build_response_def b(4))
  then show ?thesis
    using b(1) feed_sized [OF line(2) accepted plain sized] by (auto simp: wire_eq line(1))
qed

text \<open>
  The promise of a component: whatever it is asked (\<open>ok\<close> says for which questions), its answer is
  framed. The laws the client gets: the answer can be read back.
\<close>

locale framed_responder =
  fixes ok :: "'a \<Rightarrow> bool" and respond :: "'a \<Rightarrow> Response"
  assumes respond_framed: "ok x \<Longrightarrow> framed (respond x) \<and> unchunked (respond x)"
begin

lemma respond_read_back:
  "ok x \<Longrightarrow> int (length (rbody_of (respond x))) \<le> INT_MAX \<Longrightarrow>
   \<exists>st b. rs_parse (new_response_parser, new_response_builder junk) (wire (respond x)) = (Good, (st, b), [])
     \<and> rs_build_response b = (respond x)\<lparr>code_of := wire_status (code_of (respond x))\<rparr>"
  using respond_framed wire_read_back by blast

lemma respond_content_length:
  "ok x \<Longrightarrow> map_of (rheaders_of (respond x)) ''Content-Length'' = Some (size_string (rbody_of (respond x)))"
  using respond_framed [of x] by (simp add: framed_def)

end

text \<open>Every response with the shape of \<open>body_response\<close> is one.\<close>

lemma unchunked_body_response: "unchunked (body_response s b m)"
  by (simp add: unchunked_def is_chunked_def header_of_entry_def strcasecmp_eq_def c_str_def to_lower_def)

interpretation stock: framed_responder "\<lambda>s. True" stock_response
  by unfold_locales
    (simp add: stock_response_body_response framed_body_response mime_value_text unchunked_body_response)

subsection \<open>Evaluation on concrete messages\<close>

text \<open>Equations by which the simplifier evaluates the grammar on concrete bytes, and headers of examples.\<close>

lemma token_char_eval: "token_char c \<longleftrightarrow> is_char (char_int c) \<and> \<not> is_ctl (char_int c) \<and>
    c \<notin> set (''()<>@,;:'' @ [CHR 0x5C, CHR 0x22] @ ''/[]?={} '' @ [TAB])"
  by (simp only: token_char_def is_tspecial_char_int)

lemmas text_eval = token_def token_char_eval uri_text_def value_text_def text_char_def is_char_def is_ctl_def
  char_int_def

lemmas name_eval = is_chunked_def is_content_length_def is_keep_alive_def strcasecmp_eq_def c_str_def to_lower_def

lemmas number_eval = stoi_def is_space_def skip_hex_prefix_def value_of_def digit_val_def in_int_range_def
  INT_MIN_def INT_MAX_def

lemma token_method: "token ''GET''" "token ''POST''" "token ''DELETE''" "token ''HEAD''" "token ''PUT''"
  "token ''CONNECT''" "token ''OPTIONS''" "token ''TRACE''"
  by (simp_all add: text_eval)

abbreviation length_2 :: header where
  "length_2 \<equiv> \<lparr>h_name = ''Content-Length'', h_value = ''2''\<rparr>"
abbreviation chunked_encoding :: header where
  "chunked_encoding \<equiv> \<lparr>h_name = ''Transfer-Encoding'', h_value = ''chunked''\<rparr>"

lemma length_2_ok: "header_accepted length_2" "\<not> is_chunked length_2" "is_content_length length_2"
  "stoi 10 ''2'' = Inr 2"
  by (simp_all add: header_accepted_def header_ok_def token_Content_Length value_text_def text_char_def
      is_ctl_def char_int_def name_eval number_eval)

end
