(* ===== verification/RequestProperties.thy ===== *)
theory RequestProperties
  imports WireFormat
begin

text \<open>
  The properties of the request parser: what it accepts, what the builder then holds, how a message
  may be cut into reads, and what is lenient in it. The witnesses run the parser on concrete bytes.
\<close>

lemma header_Host: "header_accepted \<lparr>h_name = ''Host'', h_value = ''x''\<rparr>"
  by (simp add: header_accepted_def header_ok_def text_eval name_eval)

subsection \<open>Round trip\<close>

text \<open>
  C14. A request printed in HTTP form (request line, header lines, empty line, a body of the declared
  size) is accepted by the parser when its last byte has been read, no byte is left, the parser can
  be reset to its initial state, and \<open>build_request\<close> gives back the method, the URI, the version,
  the headers and the body.
\<close>

theorem request_read_back:
  assumes "token m" "uri_text u" "\<forall>h\<in>set hs. header_accepted h"
    and "int (length content) = sint (declared_length hs)"
    and "in_int_range (int major)" "in_int_range (int minor)"
  shows "\<exists>p b. rq_parse (new_request_parser, new_request_builder)
       (head_of_request m u major minor hs @ crlf @ content) = (Good, (p, b), [])
     \<and> rq_reset p = new_request_parser
     \<and> rb_keep_alive b = (\<exists>h\<in>set hs. is_keep_alive h)
     \<and> rq_build_request junk b =
         \<lparr>method_of = method_of_name junk m, uri_of = u,
          version_of = ''HTTP/'' @ dec_string major @ ''.'' @ dec_string minor,
          headers_of = assign_headers hs, body_of = content\<rparr>"
  by (rule rq_read_back [OF assms])

lemma declared_length_one: "\<not> is_content_length h \<Longrightarrow> declared_length [h] = 0"
  by (simp add: declared_length_def)

theorem request_read_back_witness:
  "\<exists>p b. rq_parse (new_request_parser, new_request_builder)
       (head_of_request ''GET'' ''/'' 1 1 [\<lparr>h_name = ''Host'', h_value = ''x''\<rparr>] @ crlf @ []) = (Good, (p, b), [])
     \<and> rq_reset p = new_request_parser
     \<and> rb_keep_alive b = (\<exists>h\<in>set [\<lparr>h_name = ''Host'', h_value = ''x''\<rparr>]. is_keep_alive h)
     \<and> rq_build_request None b =
         \<lparr>method_of = method_of_name None ''GET'', uri_of = ''/'',
          version_of = ''HTTP/'' @ dec_string 1 @ ''.'' @ dec_string 1,
          headers_of = assign_headers [\<lparr>h_name = ''Host'', h_value = ''x''\<rparr>], body_of = []\<rparr>"
  by (rule request_read_back)
    (simp_all add: token_method header_Host declared_length_one uri_text_def text_char_def is_ctl_def
      char_int_def is_content_length_def strcasecmp_eq_def c_str_def to_lower_def in_int_range_def
      INT_MIN_def INT_MAX_def)

subsection \<open>What has been read\<close>

text \<open>
  C15. Whenever a new parser accepts, after any reads before, it has used all its input; every byte it
  was given is in \<open>fullmessage\<close>; the method is a token, the URI has no space or control character,
  the headers are in the grammar; the body has the length the last \<open>Content-Length\<close> declares; and the
  content counter is back at zero, so \<open>reset\<close> gives the initial parser.
\<close>

theorem request_accepted:
  assumes "feed rq_consume (new_request_parser, new_request_builder) before = Some s"
    and "rq_parse s data = (Good, (p, b), rest)"
  shows "rest = [] \<and> rb_fullmessage b = before @ data
    \<and> token (rb_method b) \<and> uri_text (rb_uri b) \<and> list_all header_ok (rb_headers b)
    \<and> int (length (rb_body b)) = sint (declared_length (rb_headers b))
    \<and> rq_reset p = new_request_parser"
proof -
  have "rq_ok s" by (rule rq.feed_ok [OF assms(1) rq_ok_new])
  moreover have "rb_fullmessage (snd s) = before"
    using rq.feed_log [OF assms(1)] by (simp add: new_request_builder_def)
  ultimately show ?thesis
    using rq_parse_Good_complete [OF _ assms(2)]
    by (simp add: rq_complete_def rq_reset_def new_request_parser_def list_all_iff)
qed

text \<open>A concrete request, cut into what the parser has read before and the last read.\<close>

abbreviation first_part :: string where "first_part \<equiv> ''GET / HTTP/1.1''"
abbreviation last_part :: string where "last_part \<equiv> crlf @ crlf"

definition after_first_part :: rq_machine where
  "after_first_part = (rq_at Rq_http_version_minor 0, new_request_builder\<lparr>rb_method := ''GET'', rb_uri := ''/'',
     rb_http_version_major := 1, rb_http_version_minor := 1, rb_fullmessage := first_part\<rparr>)"

lemmas run_eval = rq_consume.simps Let_def rq_consume_line_def rq_consume_header_def rq_consume_body_def
  is_digit_def

lemma run_first_part:
  "feed rq_consume (new_request_parser, new_request_builder) first_part = Some after_first_part"
  by (simp add: run_eval is_tspecial_char_int is_char_def is_ctl_def after_first_part_def
      new_request_parser_def new_request_builder_def) (simp add: char_int_def)

lemma run_last_part: "rq_parse after_first_part last_part =
   (Good, (rq_at Rq_expecting_newline_3 0, (snd after_first_part)\<lparr>rb_fullmessage := first_part @ last_part\<rparr>), [])"
  by (simp add: run_eval after_first_part_def new_request_builder_def)

abbreviation whole_builder :: request_builder where
  "whole_builder \<equiv> (snd after_first_part)\<lparr>rb_fullmessage := first_part @ last_part\<rparr>"

theorem request_accepted_witness:
  "([] :: string) = [] \<and> rb_fullmessage whole_builder = first_part @ last_part
    \<and> token (rb_method whole_builder) \<and> uri_text (rb_uri whole_builder)
    \<and> list_all header_ok (rb_headers whole_builder)
    \<and> int (length (rb_body whole_builder)) = sint (declared_length (rb_headers whole_builder))
    \<and> rq_reset (rq_at Rq_expecting_newline_3 0) = new_request_parser"
  by (rule request_accepted [OF run_first_part run_last_part])

subsection \<open>Reads\<close>

text \<open>
  Where the network cuts a message does not matter: if the parser wants more after \<open>xs\<close>, it has used
  all of \<open>xs\<close>, and going on with \<open>ys\<close> from the state it is in gives what reading \<open>xs\<close> and \<open>ys\<close> at once gives.
\<close>

theorem request_cut:
  assumes "rq_parse s xs = (Indeterminate, t, rest)"
  shows "rest = [] \<and> rq_parse s (xs @ ys) = rq_parse t ys"
  using assms rq_parse_split [OF assms] by (simp add: rq_parse_Indeterminate)

theorem request_cut_witness:
  "([] :: string) = [] \<and> rq_parse (new_request_parser, new_request_builder) (first_part @ last_part) =
     rq_parse after_first_part last_part"
  by (rule request_cut) (simp only: rq_parse_Indeterminate run_first_part simp_thms)

text \<open>
  One read carries at most one request: bytes that follow a complete request in the same read, such as a
  pipelined second request, turn the verdict into \<open>bad\<close>, in the state of the complete request and with those
  bytes unread.
\<close>

theorem request_pipelined:
  assumes "rq_parse s xs = (Good, t, rest)" "ys \<noteq> []"
  shows "rq_parse s (xs @ ys) = (Bad, t, ys)"
proof -
  obtain zs c u where "xs = zs @ [c]" "feed rq_consume s zs = Some u" "rq_consume u c = (Good, t)"
    using assms(1) by (auto simp: rq_parse_Good)
  with assms(2) show ?thesis by (simp add: rq_parse_append)
qed

theorem request_pipelined_witness:
  "rq_parse after_first_part (last_part @ first_part) =
   (Bad, (rq_at Rq_expecting_newline_3 0, (snd after_first_part)\<lparr>rb_fullmessage := first_part @ last_part\<rparr>),
    first_part)"
  by (rule request_pipelined [OF run_last_part]) simp

subsection \<open>What is lenient\<close>

text \<open>
  When a body is declared, the line feed that ends the header section is not checked: with any byte
  \<open>c\<close> in its place the request is accepted all the same, with the same headers and the same body.
\<close>

theorem request_any_newline:
  assumes "token m" "uri_text u" "\<forall>h\<in>set hs. header_accepted h"
    and "int (length content) = sint (declared_length hs)" "content \<noteq> []"
  shows "\<exists>p b. rq_parse (new_request_parser, new_request_builder)
     (head_of_request m u major minor hs @ [CR, c] @ content) = (Good, (p, b), [])
     \<and> rb_method b = m \<and> rb_uri b = u \<and> rb_headers b = hs \<and> rb_body b = content"
  using rq_parse_any_newline [OF assms, of major minor c] by blast

theorem request_any_newline_witness:
  "\<exists>p b. rq_parse (new_request_parser, new_request_builder)
     (head_of_request ''POST'' ''/'' 1 1 [length_2]
      @ [CR, CHR ''X''] @ ''hi'') = (Good, (p, b), [])
     \<and> rb_method b = ''POST'' \<and> rb_uri b = ''/''
     \<and> rb_headers b = [length_2] \<and> rb_body b = ''hi''"
  by (rule request_any_newline)
    (simp_all add: token_method length_2_ok declared_length_def uri_text_def text_char_def is_ctl_def
      char_int_def)

end
