(* ===== verification/ResponseProperties.thy ===== *)
theory ResponseProperties
  imports WireFormat
begin

text \<open>
  The properties of the response side: what the program writes to a socket can be read back by its own
  response parser, and what that parser makes of the sized and the chunked responses of a proxied server.
\<close>

subsection \<open>The wire\<close>

text \<open>
  C16. A response with an honest \<open>Content-Length\<close>, written by \<open>to_buffers\<close>, is accepted by the response
  parser at its last byte and not before, whatever value \<open>contentsize\<close> had; \<open>build_response\<close> then gives the
  response back, with the status \<open>to_buffer\<close> wrote.
\<close>

theorem response_read_back:
  assumes "framed r" "unchunked r" "int (length (rbody_of r)) \<le> INT_MAX"
  shows "\<exists>st b. rs_parse (new_response_parser, new_response_builder junk) (wire r) = (Good, (st, b), [])
    \<and> rs_build_response b = r\<lparr>code_of := wire_status (code_of r)\<rparr>
    \<and> (\<exists>u. feed rs_consume (new_response_parser, new_response_builder junk) (butlast (wire r)) = Some u)"
  by (rule wire_read_back [OF assms])

lemma html_response: "framed (body_response s b ''text/html'')" "unchunked (body_response s b ''text/html'')"
  by (simp_all add: framed_body_response mime_value_text unchunked_body_response)

theorem response_read_back_witness:
  "\<exists>st b. rs_parse (new_response_parser, new_response_builder 7)
      (wire (body_response St_created ''hi'' ''text/html'')) = (Good, (st, b), [])
    \<and> rs_build_response b = (body_response St_created ''hi'' ''text/html'')
        \<lparr>code_of := wire_status (code_of (body_response St_created ''hi'' ''text/html''))\<rparr>
    \<and> (\<exists>u. feed rs_consume (new_response_parser, new_response_builder 7)
        (butlast (wire (body_response St_created ''hi'' ''text/html''))) = Some u)"
  by (rule response_read_back) (simp_all add: html_response INT_MAX_def del: body_response_simps(3))

text \<open>
  Only four statuses are written under their own line: \<open>to_buffer\<close> writes the status line of
  \<open>400 Bad Request\<close> for every other one, among them 201, 301, 304, 500 and 502.
\<close>

theorem status_lines:
  "to_buffer s = (if s = St_ok \<or> s = St_not_found \<or> s = St_moved_temporarily then status_strings s
     else status_strings St_bad_request)"
  by (cases s) (simp_all add: to_buffer_def)

subsection \<open>Sized and chunked responses\<close>

text \<open>
  A response whose headers declare the length of its body, and no chunked encoding, is accepted when the last
  byte of the body has been read, with its code, its headers and its body.
\<close>

theorem response_sized:
  assumes "line_ok major minor code reason" "\<forall>h\<in>set hs. header_accepted h"
    and "\<forall>h\<in>set hs. \<not> is_chunked h" "sint (declared_from junk hs) = int (length content)"
  shows "\<exists>st b. rs_parse (new_response_parser, new_response_builder junk)
      (status_line major minor code reason @ concat (map header_line hs) @ crlf @ content) =
      (Good, (st, b), [])
    \<and> sb_code b = word_of_int (value_of 10 code) \<and> sb_headers b = hs \<and> sb_body b = content"
  by (rule rs_parse_sized [OF assms])

text \<open>
  C37. A chunked response (chunks with a size in hexadecimal, each followed by its data) is accepted at the
  carriage return after the size of the last, empty chunk: the body is the data of the chunks, joined, and what
  follows is left unread.
\<close>

theorem response_chunked:
  assumes "line_ok major minor code reason" "\<forall>h\<in>set hs. header_accepted h"
    and "\<exists>h\<in>set hs. is_chunked h" "\<forall>ch\<in>set chunks. chunk_ok ch"
    and "hex_text z" "stoi 16 z = Inr 0"
  shows "\<exists>st b. rs_parse (new_response_parser, new_response_builder junk)
      (status_line major minor code reason @ concat (map header_line hs) @ crlf
       @ concat (map chunk_text chunks) @ z @ [CR] @ rest) = (Good, (st, b), rest)
    \<and> sb_code b = word_of_int (value_of 10 code) \<and> sb_headers b = hs
    \<and> sb_body b = concat (map snd chunks)"
  by (rule rs_parse_chunked [OF assms])

subsection \<open>Concrete responses\<close>

lemma line_ok_200: "line_ok CHR ''1'' CHR ''1'' ''200'' ''OK''"
  by (simp add: line_ok_def code_text_def reason_text_def is_digit_def token_char_eval is_char_def is_ctl_def
      char_int_def digit_val_def)

lemma chunked_encoding_ok: "header_accepted chunked_encoding" "is_chunked chunked_encoding"
  by (simp_all add: header_accepted_def header_ok_def token_def token_char_eval is_char_def is_ctl_def
      value_text_def text_char_def char_int_def name_eval)

theorem response_sized_witness:
  "\<exists>st b. rs_parse (new_response_parser, new_response_builder 5)
      (status_line CHR ''1'' CHR ''1'' ''200'' ''OK'' @ concat (map header_line [length_2]) @ crlf @ ''hi'') =
      (Good, (st, b), [])
    \<and> sb_code b = word_of_int (value_of 10 ''200'') \<and> sb_headers b = [length_2] \<and> sb_body b = ''hi''"
  by (rule response_sized) (simp_all add: line_ok_200 length_2_ok declared_from_def)

lemma chunk_hi: "chunk_ok (''2'', ''hi'')" "hex_text ''0''" "stoi 16 ''0'' = Inr 0"
  by (simp_all add: chunk_ok_def hex_text_def is_hex_def is_digit_def char_int_def number_eval)

theorem response_chunked_witness:
  "\<exists>st b. rs_parse (new_response_parser, new_response_builder 5)
      (status_line CHR ''1'' CHR ''1'' ''200'' ''OK'' @ concat (map header_line [chunked_encoding]) @ crlf
       @ concat (map chunk_text [(''2'', ''hi''), (''2'', ''hi'')]) @ ''0'' @ [CR] @ crlf) = (Good, (st, b), crlf)
    \<and> sb_code b = word_of_int (value_of 10 ''200'') \<and> sb_headers b = [chunked_encoding]
    \<and> sb_body b = concat (map snd [(''2'', ''hi''), (''2'', ''hi'')])"
  by (rule response_chunked) (simp_all add: line_ok_200 chunked_encoding_ok chunk_hi)

subsection \<open>What the parser gets wrong\<close>

text \<open>
  A response without \<open>Content-Length\<close>, such as a 304, is complete only if the uninitialised member
  \<open>contentsize\<close> happens to be zero; with any other value the parser waits for a body.
\<close>

theorem response_without_length:
  "fst (rs_parse (new_response_parser, new_response_builder junk)
      (status_line CHR ''1'' CHR ''1'' ''200'' ''OK'' @ crlf)) = (if junk = 0 then Good else Indeterminate)"
proof -
  have "rs_parse (new_response_parser, new_response_builder junk)
      (status_line CHR ''1'' CHR ''1'' ''200'' ''OK'' @ crlf) =
    rs_parse (Rs_header_line_start, head_builder junk CHR ''1'' CHR ''1'' ''200'' ''OK'') crlf"
    using rs_parse_head [OF line_ok_200, of "[]" junk "[]"] by simp
  then show ?thesis by (simp add: rs_parse_def rs_eval)
qed

text \<open>
  The parser does not stop at the end of a sized body. A byte after a complete response with a non-empty body
  is taken into the body, and the verdict goes back from \<open>good\<close> to \<open>indeterminate\<close>.
\<close>

theorem response_extra_byte:
  assumes "int (length content) = sint (sb_contentsize b)" "content \<noteq> []" "\<not> sb_chunked b"
  shows "fst (rs_parse (Rs_expecting_body, b) content) = Good
    \<and> fst (rs_parse (Rs_expecting_body, b) (content @ [c])) = Indeterminate"
proof -
  have pos: "0 < sint (sb_contentsize b)" using assms(1,2) by (cases content) auto
  show ?thesis
    using rs_parse_body [OF assms(1) pos assms(3)] rs_parse_body_append [OF assms(1) pos assms(3), of _ "[c]"]
    by (simp add: rs_parse_def rs_eval assms(3))
qed

theorem response_extra_byte_witness:
  "fst (rs_parse (Rs_expecting_body, new_response_builder 2) ''hi'') = Good
    \<and> fst (rs_parse (Rs_expecting_body, new_response_builder 2) (''hi'' @ [CHR ''!''])) = Indeterminate"
  by (rule response_extra_byte) (simp_all add: new_response_builder_def)

end
