(* ===== verification/ConfigParser.thy ===== *)
theory ConfigParser
  imports StdMap
begin

text \<open>
  The configuration: \<open>NginxConfig\<close>, \<open>NginxConfigStatement\<close> (include/config_parser.h) and
  \<open>NginxConfigParser\<close> (src/NginxConfigParser.cc).

  \<^item> The input stream is the list of the characters not read yet. \<open>parse_token\<close> is
    \<open>ParseToken\<close>; it returns the token type, the value and the rest of the stream.
  \<^item> \<open>parse_vars\<close> holds the local variables of \<open>Parse\<close>. The stack of configurations is the
    nesting depth: the configuration on top of the stack is always reached from the root by
    following, at each level, the child block of the last statement. A nested configuration is
    its statement list, the only part of it the parser writes.
  \<^item> An iteration of the loop of \<open>Parse\<close> is \<open>iteration_step\<close>: the \<open>if\<close> blocks on the \<open>save_\<close> flags
    in their order, the handler type, the location, the keyword chain (\<open>note_keyword\<close>) and the
    token type (\<open>token_transition\<close>). \<open>parse_loop\<close> is the loop, \<open>parse_config\<close> the function,
    \<open>parse_file\<close> the overload that opens a file.
  \<^item> Exceptions (\<open>substr\<close> on an empty token, \<open>stoi\<close>) and undefined behaviour (\<open>back()\<close> on an empty
    vector, \<open>IsValidPortNum\<close> ending without \<open>return\<close>) are \<open>Inl\<close>.
\<close>

subsection \<open>Data\<close>

datatype statement = Statement (tokens: "string list") (child_block: "statement list option")

record NginxConfig =
  statements :: "statement list"
  port_number :: int
  static_locations :: "(string \<times> string) list"
  echo_locations :: "string list"
  status_locations :: "string list"
  proxy_locations :: "(string \<times> string \<times> int) list"
  redirect_locations :: "(string \<times> string) list"
  health_locations :: "string list"
  upload_form_locations :: "string list"
  blog_ips :: "(string \<times> string) list"
  blog_ports :: "(string \<times> string) list"
  blog_usernames :: "(string \<times> string) list"
  blog_passwords :: "(string \<times> string) list"
  handler_types :: "string list"

definition new_config :: NginxConfig where
  "new_config = \<lparr>statements = [], port_number = - 1, static_locations = [], echo_locations = [],
     status_locations = [], proxy_locations = [], redirect_locations = [], health_locations = [],
     upload_form_locations = [], blog_ips = [], blog_ports = [], blog_usernames = [],
     blog_passwords = [], handler_types = []\<rparr>"

datatype TokenType =
    TOKEN_TYPE_START | TOKEN_TYPE_NORMAL | TOKEN_TYPE_START_BLOCK | TOKEN_TYPE_END_BLOCK
  | TOKEN_TYPE_COMMENT | TOKEN_TYPE_STATEMENT_END | TOKEN_TYPE_EOF | TOKEN_TYPE_ERROR

datatype TokenParserState =
    TOKEN_STATE_INITIAL_WHITESPACE | TOKEN_STATE_SINGLE_QUOTE | TOKEN_STATE_DOUBLE_QUOTE
  | TOKEN_STATE_TOKEN_TYPE_COMMENT | TOKEN_STATE_TOKEN_TYPE_NORMAL

fun TokenTypeAsString :: "TokenType \<Rightarrow> string" where
  "TokenTypeAsString TOKEN_TYPE_START = ''TOKEN_TYPE_START''"
| "TokenTypeAsString TOKEN_TYPE_NORMAL = ''TOKEN_TYPE_NORMAL''"
| "TokenTypeAsString TOKEN_TYPE_START_BLOCK = ''TOKEN_TYPE_START_BLOCK''"
| "TokenTypeAsString TOKEN_TYPE_END_BLOCK = ''TOKEN_TYPE_END_BLOCK''"
| "TokenTypeAsString TOKEN_TYPE_COMMENT = ''TOKEN_TYPE_COMMENT''"
| "TokenTypeAsString TOKEN_TYPE_STATEMENT_END = ''TOKEN_TYPE_STATEMENT_END''"
| "TokenTypeAsString TOKEN_TYPE_EOF = ''TOKEN_TYPE_EOF''"
| "TokenTypeAsString TOKEN_TYPE_ERROR = ''TOKEN_TYPE_ERROR''"

subsection \<open>Tokens\<close>

abbreviation SQ :: char where "SQ \<equiv> CHR 0x27"
abbreviation DQ :: char where "DQ \<equiv> CHR 0x22"

text \<open>\<open>st\<close> and \<open>v\<close> are the variables \<open>state\<close> and \<open>*value\<close> of the loop.\<close>

fun scan_token :: "TokenParserState \<Rightarrow> string \<Rightarrow> string \<Rightarrow> TokenType \<times> string \<times> string" where
  "scan_token st v [] =
     (if st = TOKEN_STATE_SINGLE_QUOTE \<or> st = TOKEN_STATE_DOUBLE_QUOTE then TOKEN_TYPE_ERROR
      else TOKEN_TYPE_EOF, v, [])"
| "scan_token TOKEN_STATE_INITIAL_WHITESPACE v (c # cs) =
     (if c = CHR ''{'' then (TOKEN_TYPE_START_BLOCK, [c], cs)
      else if c = CHR ''}'' then (TOKEN_TYPE_END_BLOCK, [c], cs)
      else if c = CHR ''#'' then scan_token TOKEN_STATE_TOKEN_TYPE_COMMENT [c] cs
      else if c = DQ then scan_token TOKEN_STATE_DOUBLE_QUOTE [c] cs
      else if c = SQ then scan_token TOKEN_STATE_SINGLE_QUOTE [c] cs
      else if c = CHR '';'' then (TOKEN_TYPE_STATEMENT_END, [c], cs)
      else if c = SP \<or> c = TAB \<or> c = LF \<or> c = CR then
        scan_token TOKEN_STATE_INITIAL_WHITESPACE v cs
      else scan_token TOKEN_STATE_TOKEN_TYPE_NORMAL (v @ [c]) cs)"
| "scan_token TOKEN_STATE_SINGLE_QUOTE v (c # cs) =
     (if c = SQ then (TOKEN_TYPE_NORMAL, v @ [c], cs)
      else scan_token TOKEN_STATE_SINGLE_QUOTE (v @ [c]) cs)"
| "scan_token TOKEN_STATE_DOUBLE_QUOTE v (c # cs) =
     (if c = DQ then (TOKEN_TYPE_NORMAL, v @ [c], cs)
      else scan_token TOKEN_STATE_DOUBLE_QUOTE (v @ [c]) cs)"
| "scan_token TOKEN_STATE_TOKEN_TYPE_COMMENT v (c # cs) =
     (if c = LF \<or> c = CR then (TOKEN_TYPE_COMMENT, v, cs)
      else scan_token TOKEN_STATE_TOKEN_TYPE_COMMENT (v @ [c]) cs)"
| "scan_token TOKEN_STATE_TOKEN_TYPE_NORMAL v (c # cs) =
     (if c = SP \<or> c = TAB \<or> c = LF \<or> c = TAB \<or> c = CHR '';'' \<or> c = CHR ''{'' \<or> c = CHR ''}''
      then (TOKEN_TYPE_NORMAL, v, c # cs)
      else scan_token TOKEN_STATE_TOKEN_TYPE_NORMAL (v @ [c]) cs)"

definition parse_token :: "string \<Rightarrow> TokenType \<times> string \<times> string" where
  "parse_token input = scan_token TOKEN_STATE_INITIAL_WHITESPACE [] input"

subsection \<open>Port numbers\<close>

definition MAX_PORT :: int where "MAX_PORT = 65535"

text \<open>The part after the first colon, if there is one.\<close>

definition after_colon :: "string \<Rightarrow> string" where
  "after_colon tok =
     (case find_from '':'' tok 0 of None \<Rightarrow> tok | Some pos \<Rightarrow> drop (pos + 1) tok)"

text \<open>
  \<open>IsValidPortNum\<close>: after an exception of \<open>stoi\<close> it is caught and the function ends without a
  \<open>return\<close>.
\<close>

definition IsValidPortNum :: "string \<Rightarrow> cpp_error + bool" where
  "IsValidPortNum port_token =
     (case stoi 10 (after_colon port_token) of
        Inl e \<Rightarrow> Inl UndefinedBehaviour
      | Inr n \<Rightarrow>
          if n < 0 then Inr False
          else if n \<ge> 0 \<and> n \<le> MAX_PORT then Inr True
          else Inr False)"

definition SetConfigPortNumberFromToken :: "string \<Rightarrow> NginxConfig \<Rightarrow> NginxConfig" where
  "SetConfigPortNumberFromToken port_token config =
     (case stoi 10 (after_colon port_token) of
        Inl e \<Rightarrow> config
      | Inr n \<Rightarrow>
          if n \<ge> 0 \<and> n \<le> MAX_PORT then config\<lparr>port_number := n\<rparr> else config)"

subsection \<open>The local variables of \<open>Parse\<close>\<close>

record parse_vars =
  config :: NginxConfig
  stack_depth :: nat              \<comment> \<open>\<open>config_stack.size() - 1\<close>\<close>
  bracket_stack :: "TokenType list"
  last_token_type :: TokenType
  save_port_val :: bool
  seen_location :: bool
  save_root_val :: bool
  expect_handler_type :: bool
  expect_static_root :: bool
  expect_proxy_host :: bool
  save_proxy_host_val :: bool
  expect_proxy_port :: bool
  save_proxy_port_val :: bool
  expect_redirect_host :: bool
  save_redirect_host_val :: bool
  expect_blog_info :: bool
  save_blog_ip_val :: bool
  save_blog_port :: bool
  save_blog_username :: bool
  save_blog_password :: bool
  location :: string
  store_proxy_location_token :: string
  seen_handlers :: "string list"

definition new_vars :: "NginxConfig \<Rightarrow> parse_vars" where
  "new_vars cfg = \<lparr>config = cfg, stack_depth = 0, bracket_stack = [],
     last_token_type = TOKEN_TYPE_START, save_port_val = False, seen_location = False,
     save_root_val = False, expect_handler_type = False, expect_static_root = False,
     expect_proxy_host = False, save_proxy_host_val = False, expect_proxy_port = False,
     save_proxy_port_val = False, expect_redirect_host = False, save_redirect_host_val = False,
     expect_blog_info = False, save_blog_ip_val = False, save_blog_port = False,
     save_blog_username = False, save_blog_password = False, location = [],
     store_proxy_location_token = [], seen_handlers = []\<rparr>"

text \<open>
  \<open>token.substr(1, token.size() - 2)\<close>: the subtraction is on \<open>size_t\<close>, so a one-character token
  asks for everything after the first character.
\<close>

definition unquote :: "string \<Rightarrow> cpp_error + string" where
  "unquote tok = substr tok 1 (if length tok < 2 then length tok else length tok - 2)"

abbreviation "port_keyword \<equiv> ''port''"
abbreviation "location_keyword \<equiv> ''location''"
abbreviation "root_keyword \<equiv> ''root''"
abbreviation "host_keyword \<equiv> ''host''"
abbreviation "username_keyword \<equiv> ''username''"
abbreviation "password_keyword \<equiv> ''password''"

subsection \<open>One iteration: saving values\<close>

definition save_port :: "string \<Rightarrow> parse_vars \<Rightarrow> parse_vars" where
  "save_port tok v =
     (if save_port_val v then
        v\<lparr>config := SetConfigPortNumberFromToken tok (config v), save_port_val := False\<rparr>
      else v)"

text \<open>
  A port that is not valid is logged together with \<open>std::stoi(port_token)\<close>, where \<open>port_token\<close>
  is the keyword itself.
\<close>

definition save_proxy_port :: "string \<Rightarrow> parse_vars \<Rightarrow> cpp_error + parse_vars" where
  "save_proxy_port tok v =
     (if save_proxy_port_val v then
        and_then (IsValidPortNum tok) (\<lambda>valid.
        and_then
          (if valid then
             and_then (stoi 10 tok) (\<lambda>n.
               Inr (v\<lparr>config := (config v)\<lparr>proxy_locations :=
                 umap_put (location v) (store_proxy_location_token v, n)
                   (proxy_locations (config v))\<rparr>\<rparr>))
           else and_then (stoi 10 port_keyword) (\<lambda>n. Inr v))
          (\<lambda>v. Inr (v\<lparr>save_proxy_port_val := False, location := []\<rparr>)))
      else Inr v)"

text \<open>The root block also replaces the token by its unquoted value for the rest of the iteration.\<close>

definition save_root :: "string \<Rightarrow> parse_vars \<Rightarrow> cpp_error + string \<times> parse_vars" where
  "save_root tok v =
     (if save_root_val v then
        and_then (unquote tok) (\<lambda>tok.
          Inr (tok, v\<lparr>config := (config v)\<lparr>static_locations :=
                 umap_put (location v) tok (static_locations (config v))\<rparr>,
               expect_handler_type := False, save_root_val := False,
               expect_static_root := False, seen_location := False, location := []\<rparr>))
      else Inr (tok, v))"

definition save_proxy_host :: "string \<Rightarrow> parse_vars \<Rightarrow> cpp_error + parse_vars" where
  "save_proxy_host tok v =
     (if save_proxy_host_val v then
        and_then (unquote tok) (\<lambda>s.
          Inr (v\<lparr>store_proxy_location_token := s, expect_proxy_port := True,
               expect_handler_type := False, expect_proxy_host := False,
               save_proxy_host_val := False, seen_location := False\<rparr>))
      else Inr v)"

definition save_redirect_host :: "string \<Rightarrow> parse_vars \<Rightarrow> cpp_error + parse_vars" where
  "save_redirect_host tok v =
     (if save_redirect_host_val v then
        and_then (unquote tok) (\<lambda>s.
          Inr (v\<lparr>config := (config v)\<lparr>redirect_locations :=
                 umap_put (location v) s (redirect_locations (config v))\<rparr>,
               expect_redirect_host := False, expect_handler_type := False,
               expect_proxy_port := False, save_redirect_host_val := False,
               seen_location := False\<rparr>))
      else Inr v)"

definition save_blog_ip :: "string \<Rightarrow> parse_vars \<Rightarrow> cpp_error + parse_vars" where
  "save_blog_ip tok v =
     (if save_blog_ip_val v then
        and_then (unquote tok) (\<lambda>s.
          Inr (v\<lparr>config := (config v)\<lparr>blog_ips := umap_put (location v) s (blog_ips (config v))\<rparr>,
               save_blog_ip_val := False\<rparr>))
      else Inr v)"

definition save_blog_port_value :: "string \<Rightarrow> parse_vars \<Rightarrow> cpp_error + parse_vars" where
  "save_blog_port_value tok v =
     (if save_blog_port v then
        and_then (unquote tok) (\<lambda>s.
          Inr (v\<lparr>config := (config v)\<lparr>blog_ports := umap_put (location v) s (blog_ports (config v))\<rparr>,
               save_blog_port := False\<rparr>))
      else Inr v)"

definition save_blog_username_value :: "string \<Rightarrow> parse_vars \<Rightarrow> cpp_error + parse_vars" where
  "save_blog_username_value tok v =
     (if save_blog_username v then
        and_then (unquote tok) (\<lambda>s.
          Inr (v\<lparr>config := (config v)\<lparr>blog_usernames :=
                 umap_put (location v) s (blog_usernames (config v))\<rparr>,
               save_blog_username := False\<rparr>))
      else Inr v)"

definition save_blog_password_value :: "string \<Rightarrow> parse_vars \<Rightarrow> cpp_error + parse_vars" where
  "save_blog_password_value tok v =
     (if save_blog_password v then
        and_then (unquote tok) (\<lambda>s.
          Inr (v\<lparr>config := (config v)\<lparr>blog_passwords :=
                 umap_put (location v) s (blog_passwords (config v))\<rparr>,
               save_blog_password := False\<rparr>))
      else Inr v)"

subsection \<open>One iteration: handler type, location, keywords\<close>

definition note_handler_type :: "string \<Rightarrow> parse_vars \<Rightarrow> parse_vars" where
  "note_handler_type tok v =
     v\<lparr>config := (if tok \<notin> set (seen_handlers v)
          then (config v)\<lparr>handler_types := handler_types (config v) @ [tok]\<rparr> else config v),
       seen_handlers := uset_insert tok (seen_handlers v)\<rparr>"

definition location_done :: "NginxConfig \<Rightarrow> parse_vars \<Rightarrow> parse_vars" where
  "location_done cfg v = v\<lparr>config := cfg, location := [], seen_location := False,
     expect_handler_type := False\<rparr>"

definition handler_type_token :: "string \<Rightarrow> parse_vars \<Rightarrow> parse_vars" where
  "handler_type_token tok v =
     (if expect_handler_type v then
        let v = note_handler_type tok v; cfg = config v
        in if tok = ''StaticHandler'' then v\<lparr>expect_static_root := True\<rparr>
           else if tok = ''RedirectHandler'' then v\<lparr>expect_redirect_host := True\<rparr>
           else if tok = ''ProxyHandler'' then v\<lparr>expect_proxy_host := True\<rparr>
           else if tok = ''BlogHandler'' then v\<lparr>expect_blog_info := True\<rparr>
           else if tok = ''EchoHandler'' then
             location_done (cfg\<lparr>echo_locations :=
               uset_insert (location v) (echo_locations cfg)\<rparr>) v
           else if tok = ''StatusHandler'' then
             location_done (cfg\<lparr>status_locations :=
               uset_insert (location v) (status_locations cfg)\<rparr>) v
           else if tok = ''HealthHandler'' then
             location_done (cfg\<lparr>health_locations :=
               uset_insert (location v) (health_locations cfg)\<rparr>) v
           else if tok = ''UploadFormHandler'' then
             location_done (cfg\<lparr>upload_form_locations :=
               uset_insert (location v) (upload_form_locations cfg)\<rparr>) v
           else v
      else v)"

definition location_token :: "string \<Rightarrow> parse_vars \<Rightarrow> cpp_error + parse_vars" where
  "location_token tok v =
     (if seen_location v then
        and_then (unquote tok) (\<lambda>s.
          Inr (v\<lparr>location := s, expect_handler_type := True, seen_location := False\<rparr>))
      else Inr v)"

definition note_keyword :: "string \<Rightarrow> parse_vars \<Rightarrow> parse_vars" where
  "note_keyword tok v =
     (if tok = port_keyword \<and> \<not> expect_proxy_port v \<and> \<not> expect_blog_info v
      then v\<lparr>save_port_val := True\<rparr>
      else if tok = location_keyword then v\<lparr>seen_location := True\<rparr>
      else if expect_static_root v \<and> tok = root_keyword then v\<lparr>save_root_val := True\<rparr>
      else if expect_proxy_host v \<and> tok = host_keyword then v\<lparr>save_proxy_host_val := True\<rparr>
      else if expect_proxy_port v \<and> tok = port_keyword then v\<lparr>save_proxy_port_val := True\<rparr>
      else if expect_redirect_host v \<and> tok = host_keyword then v\<lparr>save_redirect_host_val := True\<rparr>
      else if expect_blog_info v \<and> tok = host_keyword then v\<lparr>save_blog_ip_val := True\<rparr>
      else if expect_blog_info v \<and> tok = port_keyword then v\<lparr>save_blog_port := True\<rparr>
      else if expect_blog_info v \<and> tok = password_keyword then v\<lparr>save_blog_password := True\<rparr>
      else if expect_blog_info v \<and> tok = username_keyword then v\<lparr>save_blog_username := True\<rparr>
      else v)"

subsection \<open>One iteration: the token type\<close>

text \<open>Changing the block on top of the stack, \<open>d\<close> levels below \<open>ss\<close>.\<close>

fun update_block ::
  "nat \<Rightarrow> (statement list \<Rightarrow> cpp_error + statement list) \<Rightarrow> statement list
   \<Rightarrow> cpp_error + statement list" where
  "update_block 0 f ss = f ss"
| "update_block (Suc d) f ss =
     (if ss = [] then Inl UndefinedBehaviour
      else case child_block (last ss) of
        None \<Rightarrow> Inl UndefinedBehaviour
      | Some block \<Rightarrow> and_then (update_block d f block) (\<lambda>block'.
          Inr (butlast ss @ [Statement (tokens (last ss)) (Some block')])))"

definition push_token :: "string \<Rightarrow> statement list \<Rightarrow> cpp_error + statement list" where
  "push_token tok ss =
     (if ss = [] then Inl UndefinedBehaviour
      else Inr (butlast ss @ [Statement (tokens (last ss) @ [tok]) (child_block (last ss))]))"

definition open_block :: "statement list \<Rightarrow> cpp_error + statement list" where
  "open_block ss =
     (if ss = [] then Inl UndefinedBehaviour
      else Inr (butlast ss @ [Statement (tokens (last ss)) (Some [])]))"

definition on_top ::
  "(statement list \<Rightarrow> cpp_error + statement list) \<Rightarrow> parse_vars \<Rightarrow> cpp_error + parse_vars" where
  "on_top f v = and_then (update_block (stack_depth v) f (statements (config v))) (\<lambda>ss.
     Inr (v\<lparr>config := (config v)\<lparr>statements := ss\<rparr>\<rparr>))"

definition clear_flags :: "parse_vars \<Rightarrow> parse_vars" where
  "clear_flags v = v\<lparr>expect_blog_info := False, save_blog_ip_val := False,
     save_blog_port := False, save_blog_username := False, save_blog_password := False,
     save_port_val := False, seen_location := False, save_root_val := False,
     expect_handler_type := False, expect_static_root := False, expect_proxy_host := False,
     save_proxy_host_val := False, expect_proxy_port := False, save_proxy_port_val := False,
     expect_redirect_host := False, save_redirect_host_val := False\<rparr>"

text \<open>
  The end of an iteration: go round again, or return a verdict. Leaving the loop by \<open>break\<close>
  returns \<open>false\<close>.
\<close>

datatype loop_end = Again parse_vars | Return bool parse_vars

definition token_transition ::
  "TokenType \<Rightarrow> string \<Rightarrow> parse_vars \<Rightarrow> cpp_error + loop_end" where
  "token_transition token_type tok v =
     (let prev = last_token_type v;
          next_one = (\<lambda>v. Inr (Again (v\<lparr>last_token_type := token_type\<rparr>)));
          fail = Inr (Return False v)
      in case token_type of
        TOKEN_TYPE_ERROR \<Rightarrow> fail
      | TOKEN_TYPE_COMMENT \<Rightarrow> Inr (Again v)
      | TOKEN_TYPE_START \<Rightarrow> fail
      | TOKEN_TYPE_NORMAL \<Rightarrow>
          if prev \<in> {TOKEN_TYPE_START, TOKEN_TYPE_STATEMENT_END, TOKEN_TYPE_START_BLOCK,
                     TOKEN_TYPE_END_BLOCK, TOKEN_TYPE_NORMAL} then
            and_then
              (if prev \<noteq> TOKEN_TYPE_NORMAL
               then on_top (\<lambda>ss. Inr (ss @ [Statement [] None])) v else Inr v)
              (\<lambda>v. and_then (on_top (push_token tok) v) next_one)
          else fail
      | TOKEN_TYPE_STATEMENT_END \<Rightarrow>
          if prev \<noteq> TOKEN_TYPE_NORMAL then fail else next_one v
      | TOKEN_TYPE_START_BLOCK \<Rightarrow>
          if prev \<noteq> TOKEN_TYPE_NORMAL then fail
          else and_then (on_top open_block v) (\<lambda>v.
            next_one (v\<lparr>stack_depth := Suc (stack_depth v),
                        bracket_stack := TOKEN_TYPE_START_BLOCK # bracket_stack v\<rparr>))
      | TOKEN_TYPE_END_BLOCK \<Rightarrow>
          if (prev \<noteq> TOKEN_TYPE_STATEMENT_END \<and> prev \<noteq> TOKEN_TYPE_END_BLOCK
              \<and> prev \<noteq> TOKEN_TYPE_START_BLOCK) \<or> bracket_stack v = [] then fail
          else next_one ((clear_flags v)\<lparr>bracket_stack := tl (bracket_stack v),
                                         stack_depth := stack_depth v - 1\<rparr>)
      | TOKEN_TYPE_EOF \<Rightarrow>
          if prev \<noteq> TOKEN_TYPE_STATEMENT_END \<and> prev \<noteq> TOKEN_TYPE_END_BLOCK
             \<and> prev \<noteq> TOKEN_TYPE_START then fail
          else Inr (Return (bracket_stack v = []) v))"

definition save_values :: "string \<Rightarrow> parse_vars \<Rightarrow> cpp_error + string \<times> parse_vars" where
  "save_values tok v =
     and_then (save_proxy_port tok (save_port tok v)) (\<lambda>v.
     and_then (save_root tok v) (\<lambda>(tok, v).
     and_then (save_proxy_host tok v) (\<lambda>v.
     and_then (save_redirect_host tok v) (\<lambda>v.
     and_then (save_blog_ip tok v) (\<lambda>v.
     and_then (save_blog_port_value tok v) (\<lambda>v.
     and_then (save_blog_username_value tok v) (\<lambda>v.
     and_then (save_blog_password_value tok v) (\<lambda>v. Inr (tok, v)))))))))"

definition iteration_step :: "TokenType \<Rightarrow> string \<Rightarrow> parse_vars \<Rightarrow> cpp_error + loop_end" where
  "iteration_step token_type tok v =
     and_then (save_values tok v) (\<lambda>(tok, v).
     and_then (location_token tok (handler_type_token tok v)) (\<lambda>v.
     token_transition token_type tok (note_keyword tok v)))"

subsection \<open>The loop\<close>

lemma scan_token_rest: "length (snd (snd (scan_token st v cs))) \<le> length cs"
proof (induction cs arbitrary: st v)
  case Nil
  then show ?case by simp
next
  case (Cons c cs)
  have "length (snd (snd (scan_token st' u cs))) \<le> Suc (length cs)" for st' u
    using Cons [of st' u] by simp
  then show ?case by (cases st) simp_all
qed

lemma parse_token_shorter:
  assumes "parse_token cs = (ty, val, rest)" "ty \<noteq> TOKEN_TYPE_EOF"
  shows "length rest < length cs"
proof -
  have "fst (scan_token TOKEN_STATE_INITIAL_WHITESPACE w cs) \<noteq> TOKEN_TYPE_EOF \<Longrightarrow>
      length (snd (snd (scan_token TOKEN_STATE_INITIAL_WHITESPACE w cs))) < length cs" for w
  proof (induction cs arbitrary: w)
    case Nil
    then show ?case by simp
  next
    case (Cons c cs)
    have "length (snd (snd (scan_token st' u cs))) < Suc (length cs)" for st' u
      using scan_token_rest [of st' u cs] by simp
    then show ?case by simp
  qed
  from this [of "[]"] show ?thesis using assms by (simp add: parse_token_def)
qed

lemma token_transition_Again:
  "token_transition ty tok v = Inr (Again v') \<Longrightarrow> ty \<noteq> TOKEN_TYPE_EOF \<and> ty \<noteq> TOKEN_TYPE_ERROR"
  by (auto simp: token_transition_def Let_def split: if_splits)

lemma iteration_step_Again:
  "iteration_step ty tok v = Inr (Again v') \<Longrightarrow> ty \<noteq> TOKEN_TYPE_EOF \<and> ty \<noteq> TOKEN_TYPE_ERROR"
  by (auto simp: iteration_step_def and_then_Inr dest!: token_transition_Again)

function parse_loop :: "parse_vars \<Rightarrow> string \<Rightarrow> cpp_error + bool \<times> NginxConfig" where
  "parse_loop v input =
     (case parse_token input of (token_type, tok, rest) \<Rightarrow>
        case iteration_step token_type tok v of
          Inl e \<Rightarrow> Inl e
        | Inr (Return b v') \<Rightarrow> Inr (b, config v')
        | Inr (Again v') \<Rightarrow> parse_loop v' rest)"
  by pat_completeness auto
termination
proof (relation "measure (\<lambda>(v, input). length input)", simp, clarsimp)
  fix v input ty tok rest v'
  assume p: "(ty, tok, rest) = parse_token input" and "iteration_step ty tok v = Inr (Again v')"
  then have "ty \<noteq> TOKEN_TYPE_EOF" "ty \<noteq> TOKEN_TYPE_ERROR"
    using iteration_step_Again by blast+
  then show "length rest < length input"
    using parse_token_shorter p by metis
qed

declare parse_loop.simps [simp del]

definition parse_config :: "string \<Rightarrow> NginxConfig \<Rightarrow> cpp_error + bool \<times> NginxConfig" where
  "parse_config input cfg = parse_loop (new_vars cfg) input"

text \<open>
  The overload on a file name: \<open>fs\<close> gives the contents of the files that can be opened.
\<close>

definition parse_file ::
  "(string \<Rightarrow> string option) \<Rightarrow> string \<Rightarrow> NginxConfig \<Rightarrow> cpp_error + bool \<times> NginxConfig" where
  "parse_file fs file_name cfg =
     (case fs file_name of None \<Rightarrow> Inr (False, cfg) | Some input \<Rightarrow> parse_config input cfg)"

end
