(* ===== verification/ConfigFacts.thy ===== *)
theory ConfigFacts
  imports ConfigParser
begin

text \<open>
  What holds of every configuration the parser produces, and of its verdict.

  \<^item> \<open>config_ok\<close>: the port is unset or in range, no key is stored twice, and every kind of
    location that is in use has its handler type in the list the dispatcher goes through.
    \<open>vars_ok\<close> is the invariant of the loop that carries it.
  \<^item> \<open>structure_ok\<close>: the two stacks have the same height, the block on top exists, and it has a
    statement whenever the parser is about to ask for the last one; so \<open>token_transition\<close> never
    reaches undefined behaviour.
  \<^item> \<open>accepts\<close>: the language of token types the parser accepts, a machine with the previous
    token type and the nesting depth; the verdict of the parser is its verdict.
\<close>

subsection \<open>The configuration\<close>

definition port_ok :: "int \<Rightarrow> bool" where
  "port_ok p \<longleftrightarrow> p = - 1 \<or> (0 \<le> p \<and> p \<le> MAX_PORT)"

definition config_ok :: "NginxConfig \<Rightarrow> bool" where
  "config_ok c \<longleftrightarrow> port_ok (port_number c) \<and>
     distinct (handler_types c) \<and>
     umap_ok (static_locations c) \<and> umap_ok (proxy_locations c) \<and> umap_ok (redirect_locations c) \<and>
     umap_ok (blog_ips c) \<and> distinct (echo_locations c) \<and> distinct (status_locations c) \<and>
     distinct (health_locations c) \<and> distinct (upload_form_locations c) \<and>
     (static_locations c \<noteq> [] \<longrightarrow> ''StaticHandler'' \<in> set (handler_types c)) \<and>
     (proxy_locations c \<noteq> [] \<longrightarrow> ''ProxyHandler'' \<in> set (handler_types c)) \<and>
     (redirect_locations c \<noteq> [] \<longrightarrow> ''RedirectHandler'' \<in> set (handler_types c)) \<and>
     (blog_ips c \<noteq> [] \<longrightarrow> ''BlogHandler'' \<in> set (handler_types c)) \<and>
     (echo_locations c \<noteq> [] \<longrightarrow> ''EchoHandler'' \<in> set (handler_types c)) \<and>
     (status_locations c \<noteq> [] \<longrightarrow> ''StatusHandler'' \<in> set (handler_types c)) \<and>
     (health_locations c \<noteq> [] \<longrightarrow> ''HealthHandler'' \<in> set (handler_types c)) \<and>
     (upload_form_locations c \<noteq> [] \<longrightarrow> ''UploadFormHandler'' \<in> set (handler_types c))"

lemma config_ok_new: "config_ok new_config"
  by (simp add: config_ok_def new_config_def port_ok_def umap_ok_def)

text \<open>A flag that leads to a location being stored is only set after its handler type was seen.\<close>

definition flags_ok :: "parse_vars \<Rightarrow> bool" where
  "flags_ok v \<longleftrightarrow> set (seen_handlers v) = set (handler_types (config v)) \<and>
     (expect_static_root v \<or> save_root_val v \<longrightarrow> ''StaticHandler'' \<in> set (handler_types (config v))) \<and>
     (expect_proxy_host v \<or> save_proxy_host_val v \<or> expect_proxy_port v \<or> save_proxy_port_val v
        \<longrightarrow> ''ProxyHandler'' \<in> set (handler_types (config v))) \<and>
     (expect_redirect_host v \<or> save_redirect_host_val v
        \<longrightarrow> ''RedirectHandler'' \<in> set (handler_types (config v))) \<and>
     (expect_blog_info v \<or> save_blog_ip_val v \<longrightarrow> ''BlogHandler'' \<in> set (handler_types (config v)))"

definition vars_ok :: "parse_vars \<Rightarrow> bool" where
  "vars_ok v \<longleftrightarrow> config_ok (config v) \<and> flags_ok v"

lemma vars_ok_new: "vars_ok (new_vars new_config)"
proof -
  have "config (new_vars new_config) = new_config"
    by (simp add: new_vars_def)
  then have "config_ok (config (new_vars new_config))"
    using config_ok_new by simp
  moreover have "flags_ok (new_vars new_config)"
    by (simp add: flags_ok_def new_vars_def new_config_def)
  ultimately show ?thesis by (simp add: vars_ok_def)
qed

lemmas vars_ok_defs = vars_ok_def flags_ok_def config_ok_def

lemma vars_ok_set_port:
  assumes "vars_ok v" "port_ok n"
  shows "vars_ok (v\<lparr>config := (config v)\<lparr>port_number := n\<rparr>, save_port_val := b\<rparr>)"
  using assms by (simp add: vars_ok_defs)

lemma vars_ok_save_port_val: "vars_ok v \<Longrightarrow> vars_ok (v\<lparr>save_port_val := b\<rparr>)"
  by (simp add: vars_ok_defs)

lemma vars_ok_save_port: "vars_ok v \<Longrightarrow> vars_ok (save_port tok v)"
proof -
  assume v: "vars_ok v"
  have "SetConfigPortNumberFromToken tok c = c \<or>
      (\<exists>n. port_ok n \<and> SetConfigPortNumberFromToken tok c = c\<lparr>port_number := n\<rparr>)" for c
    by (auto simp: SetConfigPortNumberFromToken_def port_ok_def split: sum.split)
  from this [of "config v"] show ?thesis
    using vars_ok_set_port [OF v] vars_ok_save_port_val [OF v] v
    unfolding save_port_def by auto
qed

lemma vars_ok_put_proxy:
  assumes "vars_ok v" "''ProxyHandler'' \<in> set (handler_types (config v))"
  shows "vars_ok (v\<lparr>config := (config v)\<lparr>proxy_locations := umap_put k x
    (proxy_locations (config v))\<rparr>\<rparr>)"
  using assms by (simp add: vars_ok_defs umap_ok_put)

lemma vars_ok_end_proxy: "vars_ok v \<Longrightarrow> vars_ok (v\<lparr>save_proxy_port_val := False, location := l\<rparr>)"
  by (simp add: vars_ok_defs)

lemma vars_ok_save_proxy_port: "vars_ok v \<Longrightarrow> all_ok vars_ok (save_proxy_port tok v)"
proof (cases "save_proxy_port_val v")
  case True
  assume v: "vars_ok v"
  then have "''ProxyHandler'' \<in> set (handler_types (config v))"
    using True by (simp add: vars_ok_def flags_ok_def)
  note put = vars_ok_end_proxy [OF vars_ok_put_proxy [OF v this]] and skip = vars_ok_end_proxy [OF v]
  show ?thesis
    unfolding save_proxy_port_def
    by (cases "IsValidPortNum tok"; cases "stoi 10 tok"; cases "stoi 10 port_keyword")
      (simp_all add: True put skip)
qed (simp add: save_proxy_port_def)

lemma vars_ok_unquote:
  assumes "vars_ok v" "\<And>s. vars_ok (f s)"
  shows "all_ok vars_ok (if b then and_then (unquote tok) (\<lambda>s. Inr (f s)) else Inr v)"
  using assms by (cases "unquote tok") simp_all

lemma vars_ok_save_root: "vars_ok v \<Longrightarrow> all_ok (\<lambda>(tok, v). vars_ok v) (save_root tok v)"
  unfolding save_root_def
  by (cases "unquote tok") (simp_all add: vars_ok_defs umap_ok_put)

lemma vars_ok_save_proxy_host: "vars_ok v \<Longrightarrow> all_ok vars_ok (save_proxy_host tok v)"
  unfolding save_proxy_host_def
  by (cases "unquote tok") (simp_all add: vars_ok_defs)

lemma vars_ok_save_redirect_host: "vars_ok v \<Longrightarrow> all_ok vars_ok (save_redirect_host tok v)"
  unfolding save_redirect_host_def
  by (cases "unquote tok") (simp_all add: vars_ok_defs umap_ok_put)

lemma vars_ok_save_blog:
  assumes "vars_ok v"
  shows "all_ok vars_ok (save_blog_ip tok v)" "all_ok vars_ok (save_blog_port_value tok v)"
    "all_ok vars_ok (save_blog_username_value tok v)" "all_ok vars_ok (save_blog_password_value tok v)"
  unfolding save_blog_ip_def save_blog_port_value_def save_blog_username_value_def
    save_blog_password_value_def
  using assms by (cases "unquote tok"; simp add: vars_ok_defs umap_ok_put)+

lemma vars_ok_save_values: "vars_ok v \<Longrightarrow> all_ok (\<lambda>(tok, v). vars_ok v) (save_values tok v)"
  unfolding save_values_def
  by (intro all_ok_and_then [OF vars_ok_save_proxy_port] all_ok_and_then [OF vars_ok_save_root]
      vars_ok_save_port) (auto intro!: all_ok_and_then [OF vars_ok_save_proxy_host]
      all_ok_and_then [OF vars_ok_save_redirect_host] all_ok_and_then [OF vars_ok_save_blog(1)]
      all_ok_and_then [OF vars_ok_save_blog(2)] all_ok_and_then [OF vars_ok_save_blog(3)]
      all_ok_and_then [OF vars_ok_save_blog(4)])

lemma vars_ok_note_handler_type:
  assumes "vars_ok v"
  shows "vars_ok (note_handler_type tok v)"
    "tok \<in> set (handler_types (config (note_handler_type tok v)))"
proof -
  have seen: "set (seen_handlers v) = set (handler_types (config v))"
    using assms by (simp add: vars_ok_def flags_ok_def)
  then show "tok \<in> set (handler_types (config (note_handler_type tok v)))"
    by (simp add: note_handler_type_def)
  show "vars_ok (note_handler_type tok v)"
    using assms seen
    by (cases "tok \<in> set (seen_handlers v)")
      (simp_all add: note_handler_type_def vars_ok_defs insert_absorb)
qed

lemma vars_ok_expect:
  assumes "vars_ok v"
  shows "''StaticHandler'' \<in> set (handler_types (config v)) \<Longrightarrow> vars_ok (v\<lparr>expect_static_root := True\<rparr>)"
    "''RedirectHandler'' \<in> set (handler_types (config v)) \<Longrightarrow> vars_ok (v\<lparr>expect_redirect_host := True\<rparr>)"
    "''ProxyHandler'' \<in> set (handler_types (config v)) \<Longrightarrow> vars_ok (v\<lparr>expect_proxy_host := True\<rparr>)"
    "''BlogHandler'' \<in> set (handler_types (config v)) \<Longrightarrow> vars_ok (v\<lparr>expect_blog_info := True\<rparr>)"
  using assms by (simp_all add: vars_ok_defs)

lemma vars_ok_location_done:
  assumes "vars_ok v"
  shows "''EchoHandler'' \<in> set (handler_types (config v)) \<Longrightarrow> vars_ok (location_done
      ((config v)\<lparr>echo_locations := uset_insert l (echo_locations (config v))\<rparr>) v)"
    "''StatusHandler'' \<in> set (handler_types (config v)) \<Longrightarrow> vars_ok (location_done
      ((config v)\<lparr>status_locations := uset_insert l (status_locations (config v))\<rparr>) v)"
    "''HealthHandler'' \<in> set (handler_types (config v)) \<Longrightarrow> vars_ok (location_done
      ((config v)\<lparr>health_locations := uset_insert l (health_locations (config v))\<rparr>) v)"
    "''UploadFormHandler'' \<in> set (handler_types (config v)) \<Longrightarrow> vars_ok (location_done
      ((config v)\<lparr>upload_form_locations := uset_insert l (upload_form_locations (config v))\<rparr>) v)"
  using assms by (simp_all add: vars_ok_defs location_done_def)

lemma vars_ok_handler_type:
  assumes "vars_ok v"
  shows "vars_ok (handler_type_token tok v)"
proof -
  note v' = vars_ok_note_handler_type [OF assms, of tok]
  have split: "(c \<Longrightarrow> vars_ok a) \<Longrightarrow> vars_ok b \<Longrightarrow> vars_ok (if c then a else b)" for c a b
    by simp
  show ?thesis
    unfolding handler_type_token_def Let_def
    by (intro split vars_ok_expect vars_ok_location_done v'(1) assms; erule subst, rule v'(2))
qed

lemma vars_ok_location: "vars_ok v \<Longrightarrow> all_ok vars_ok (location_token tok v)"
  unfolding location_token_def by (cases "unquote tok") (simp_all add: vars_ok_defs)

lemma vars_ok_keyword: "vars_ok v \<Longrightarrow> vars_ok (note_keyword tok v)"
  by (simp add: note_keyword_def vars_ok_defs)

lemma vars_ok_statements: "vars_ok v \<Longrightarrow> vars_ok (v\<lparr>config := (config v)\<lparr>statements := ss\<rparr>\<rparr>)"
  by (simp add: vars_ok_defs)

lemma vars_ok_on_top: "vars_ok v \<Longrightarrow> all_ok vars_ok (on_top f v)"
  by (cases "update_block (stack_depth v) f (statements (config v))")
    (simp_all add: on_top_def vars_ok_statements)

lemma vars_ok_clear_flags: "vars_ok v \<Longrightarrow> vars_ok (clear_flags v)"
  by (simp add: clear_flags_def vars_ok_defs)

lemma vars_ok_stacks:
  assumes "vars_ok v"
  shows "vars_ok (v\<lparr>last_token_type := ty\<rparr>)"
    "vars_ok (v\<lparr>stack_depth := d, bracket_stack := bs\<rparr>)" "vars_ok (v\<lparr>bracket_stack := bs, stack_depth := d\<rparr>)"
  using assms by (simp_all add: vars_ok_defs)

fun end_ok :: "loop_end \<Rightarrow> bool" where
  "end_ok (Again v) = vars_ok v"
| "end_ok (Return b v) = vars_ok v"

lemma vars_ok_transition: "vars_ok v \<Longrightarrow> all_ok end_ok (token_transition ty tok v)"
  unfolding token_transition_def Let_def
  by (cases ty)
    (auto intro!: all_ok_and_then [OF vars_ok_on_top] all_ok_and_then [where P = vars_ok]
      vars_ok_on_top vars_ok_stacks vars_ok_clear_flags simp del: on_top_def)

lemma vars_ok_iteration: "vars_ok v \<Longrightarrow> all_ok end_ok (iteration_step ty tok v)"
  unfolding iteration_step_def
  by (rule all_ok_and_then [OF vars_ok_save_values])
    (auto intro!: all_ok_and_then [OF vars_ok_location] vars_ok_transition vars_ok_handler_type
      vars_ok_keyword)

text \<open>What every iteration keeps holds of the configuration at the end.\<close>

lemma vars_ok_parse_loop:
  "vars_ok v \<Longrightarrow> parse_loop v input = Inr (b, cfg) \<Longrightarrow> config_ok cfg"
proof (induction v input rule: parse_loop.induct)
  case (1 v input)
  obtain ty tok rest where p: "parse_token input = (ty, tok, rest)"
    by (cases "parse_token input") auto
  have ok: "all_ok end_ok (iteration_step ty tok v)"
    by (rule vars_ok_iteration [OF "1.prems"(1)])
  show ?case
  proof (cases "iteration_step ty tok v")
    case (Inl e)
    then show ?thesis using "1.prems"(2) p by (simp add: parse_loop.simps)
  next
    case (Inr r)
    then show ?thesis
    proof (cases r)
      case (Again v')
      then show ?thesis
        using "1.IH" [OF p [symmetric] refl Inr Again] "1.prems"(2) ok Inr p
        by (simp add: parse_loop.simps [of v])
    next
      case (Return c v')
      then show ?thesis
        using "1.prems"(2) ok Inr p by (auto simp: parse_loop.simps [of v] vars_ok_def)
    qed
  qed
qed

subsection \<open>The block stack\<close>

text \<open>The block reached by \<open>d\<close> steps from a last statement into its block.\<close>

definition last_block :: "statement list \<Rightarrow> statement list option" where
  "last_block ss = (if ss = [] then None else child_block (last ss))"

fun block_at :: "nat \<Rightarrow> statement list \<Rightarrow> statement list option" where
  "block_at 0 ss = Some ss"
| "block_at (Suc d) ss = Option.bind (last_block ss) (block_at d)"

lemma block_at_Suc: "block_at (Suc d) ss = Option.bind (block_at d ss) last_block"
proof (induction d arbitrary: ss)
  case (Suc d)
  then show ?case by (cases "last_block ss") simp_all
next
  case 0
  then show ?case by (cases "last_block ss") simp_all
qed

lemma block_at_shallower: "block_at (Suc d) ss = Some b \<Longrightarrow> \<exists>b'. block_at d ss = Some b'"
  by (cases "block_at d ss") (simp_all add: block_at_Suc del: block_at.simps(2))

lemma last_block_snoc: "last_block (ss @ [Statement ts b]) = b"
  by (simp add: last_block_def)

lemma update_block_block_at:
  assumes "block_at d ss = Some b" "f b = Inr b'"
  obtains ss' where "update_block d f ss = Inr ss'" "block_at d ss' = Some b'"
proof -
  have "\<exists>ss'. update_block d f ss = Inr ss' \<and> block_at d ss' = Some b'"
    using assms(1)
  proof (induction d arbitrary: ss)
    case 0
    then show ?case using assms(2) by simp
  next
    case (Suc d)
    then obtain c where c: "last_block ss = Some c" "block_at d c = Some b"
      by (cases "last_block ss") auto
    with Suc.IH obtain c' where "update_block d f c = Inr c'" "block_at d c' = Some b'"
      by blast
    moreover have "ss \<noteq> []" "child_block (last ss) = Some c"
      using c(1) by (auto simp: last_block_def split: if_splits)
    ultimately have "update_block (Suc d) f ss =
        Inr (butlast ss @ [Statement (tokens (last ss)) (Some c')])"
      "block_at (Suc d) (butlast ss @ [Statement (tokens (last ss)) (Some c')]) = Some b'"
      by (simp_all add: last_block_snoc)
    then show ?case by blast
  qed
  then show thesis using that by blast
qed

definition structure_ok :: "parse_vars \<Rightarrow> bool" where
  "structure_ok v \<longleftrightarrow> stack_depth v = length (bracket_stack v) \<and>
     (\<exists>b. block_at (stack_depth v) (statements (config v)) = Some b \<and>
          (last_token_type v = TOKEN_TYPE_NORMAL \<longrightarrow> b \<noteq> []))"

lemma structure_ok_new: "structure_ok (new_vars cfg)"
  by (simp add: structure_ok_def new_vars_def)

lemma on_top_ok:
  assumes "block_at (stack_depth v) (statements (config v)) = Some b" "f b = Inr b'"
  obtains ss where "on_top f v = Inr (v\<lparr>config := (config v)\<lparr>statements := ss\<rparr>\<rparr>)"
    "block_at (stack_depth v) ss = Some b'"
proof -
  obtain ss where "update_block (stack_depth v) f (statements (config v)) = Inr ss"
    "block_at (stack_depth v) ss = Some b'"
    using update_block_block_at [of "stack_depth v" "statements (config v)" b f b', OF assms] by blast
  then show thesis by (intro that [of ss]) (simp_all add: on_top_def)
qed

fun end_structure_ok :: "loop_end \<Rightarrow> bool" where
  "end_structure_ok (Again v) = structure_ok v"
| "end_structure_ok (Return b v) = True"

text \<open>
  The token type part of an iteration never meets undefined behaviour and keeps the invariant.
\<close>

lemma transition_NORMAL:
  assumes "structure_ok v"
  shows "\<exists>r. token_transition TOKEN_TYPE_NORMAL tok v = Inr r \<and> end_structure_ok r"
proof -
  obtain b where b: "block_at (stack_depth v) (statements (config v)) = Some b"
      "last_token_type v = TOKEN_TYPE_NORMAL \<longrightarrow> b \<noteq> []"
    and d: "stack_depth v = length (bracket_stack v)"
    using assms by (auto simp: structure_ok_def)
  let ?new = "\<lambda>ss. Inr (ss @ [Statement [] None])"
  have push: "\<exists>r. and_then (on_top (push_token tok) w)
      (\<lambda>v. Inr (Again (v\<lparr>last_token_type := TOKEN_TYPE_NORMAL\<rparr>))) = Inr r \<and> end_structure_ok r"
    if "block_at (stack_depth w) (statements (config w)) = Some c" "c \<noteq> []"
      "stack_depth w = length (bracket_stack w)" for w c
  proof -
    have "push_token tok c = Inr (butlast c @ [Statement (tokens (last c) @ [tok]) (child_block (last c))])"
      using that(2) by (simp add: push_token_def)
    from on_top_ok [of w c "push_token tok", OF that(1) this]
    obtain ss where "on_top (push_token tok) w = Inr (w\<lparr>config := (config w)\<lparr>statements := ss\<rparr>\<rparr>)"
      "block_at (stack_depth w) ss = Some (butlast c @ [Statement (tokens (last c) @ [tok]) (child_block (last c))])" .
    then show ?thesis using that(3) by (simp add: structure_ok_def)
  qed
  obtain ss where ss: "on_top ?new v = Inr (v\<lparr>config := (config v)\<lparr>statements := ss\<rparr>\<rparr>)"
    "block_at (stack_depth v) ss = Some (b @ [Statement [] None])"
    using on_top_ok [of v b ?new, OF b(1) refl] by blast
  show ?thesis
    using push [of v b] push [of "v\<lparr>config := (config v)\<lparr>statements := ss\<rparr>\<rparr>" "b @ [Statement [] None]"]
      b d ss
    by (cases "last_token_type v = TOKEN_TYPE_NORMAL") (auto simp: token_transition_def Let_def)
qed

lemma transition_START_BLOCK:
  assumes "structure_ok v"
  shows "\<exists>r. token_transition TOKEN_TYPE_START_BLOCK tok v = Inr r \<and> end_structure_ok r"
proof (cases "last_token_type v = TOKEN_TYPE_NORMAL")
  case True
  then obtain b where b: "block_at (stack_depth v) (statements (config v)) = Some b" "b \<noteq> []"
    and d: "stack_depth v = length (bracket_stack v)"
    using assms by (auto simp: structure_ok_def)
  have "open_block b = Inr (butlast b @ [Statement (tokens (last b)) (Some [])])"
    using b(2) by (simp add: open_block_def)
  from on_top_ok [of v b open_block, OF b(1) this]
  obtain ss where "on_top open_block v = Inr (v\<lparr>config := (config v)\<lparr>statements := ss\<rparr>\<rparr>)"
    "block_at (stack_depth v) ss = Some (butlast b @ [Statement (tokens (last b)) (Some [])])" .
  then show ?thesis
    using True d
    by (simp add: token_transition_def structure_ok_def block_at_Suc last_block_snoc
        del: block_at.simps(2))
qed (simp add: token_transition_def)

lemma transition_END_BLOCK:
  assumes "structure_ok v"
  shows "\<exists>r. token_transition TOKEN_TYPE_END_BLOCK tok v = Inr r \<and> end_structure_ok r"
proof -
  obtain b where "block_at (stack_depth v) (statements (config v)) = Some b"
    using assms by (auto simp: structure_ok_def)
  then have "\<exists>b'. block_at (stack_depth v - 1) (statements (config v)) = Some b'"
    using block_at_shallower by (cases "stack_depth v") (simp, metis diff_Suc_1)
  then show ?thesis
    using assms by (auto simp: token_transition_def structure_ok_def clear_flags_def Let_def)
qed

lemma transition_structure_ok:
  assumes "structure_ok v"
  shows "\<exists>r. token_transition ty tok v = Inr r \<and> end_structure_ok r"
proof -
  have "\<exists>r. token_transition ty tok v = Inr r \<and> end_structure_ok r"
    if "ty \<in> {TOKEN_TYPE_STATEMENT_END, TOKEN_TYPE_EOF, TOKEN_TYPE_COMMENT, TOKEN_TYPE_ERROR, TOKEN_TYPE_START}"
    using that assms by (auto simp: token_transition_def structure_ok_def Let_def)
  then show ?thesis
    using transition_NORMAL [OF assms] transition_START_BLOCK [OF assms] transition_END_BLOCK [OF assms]
    by (cases ty) simp_all
qed

subsection \<open>The verdict\<close>

text \<open>The tokens of an input, up to the first \<open>EOF\<close> or \<open>ERROR\<close>, where the loop of \<open>Parse\<close> ends.\<close>

function tokens_of :: "string \<Rightarrow> (TokenType \<times> string) list" where
  "tokens_of input =
     (case parse_token input of (ty, tok, rest) \<Rightarrow>
        if ty = TOKEN_TYPE_EOF \<or> ty = TOKEN_TYPE_ERROR then [(ty, tok)]
        else (ty, tok) # tokens_of rest)"
  by pat_completeness auto
termination
  by (relation "measure length") (auto dest: parse_token_shorter [OF sym])

declare tokens_of.simps [simp del]

text \<open>The grammar of a configuration, comments left out.\<close>

inductive block :: "TokenType list \<Rightarrow> bool" where
  block_empty: "block []"
| block_statement: "block ts \<Longrightarrow> block (replicate (Suc n) TOKEN_TYPE_NORMAL @ TOKEN_TYPE_STATEMENT_END # ts)"
| block_nested: "block ts \<Longrightarrow> block us \<Longrightarrow>
    block (replicate (Suc n) TOKEN_TYPE_NORMAL @ TOKEN_TYPE_START_BLOCK # ts @ TOKEN_TYPE_END_BLOCK # us)"

text \<open>The verdict as a machine on the token types, with the previous one and the depth.\<close>

fun accepts :: "TokenType \<Rightarrow> nat \<Rightarrow> TokenType list \<Rightarrow> bool" where
  "accepts prev d [] = False"
| "accepts prev d (ty # ts) =
     (case ty of
        TOKEN_TYPE_START \<Rightarrow> False
      | TOKEN_TYPE_ERROR \<Rightarrow> False
      | TOKEN_TYPE_COMMENT \<Rightarrow> accepts prev d ts
      | TOKEN_TYPE_NORMAL \<Rightarrow>
          prev \<in> {TOKEN_TYPE_START, TOKEN_TYPE_STATEMENT_END, TOKEN_TYPE_START_BLOCK,
                  TOKEN_TYPE_END_BLOCK, TOKEN_TYPE_NORMAL} \<and> accepts TOKEN_TYPE_NORMAL d ts
      | TOKEN_TYPE_STATEMENT_END \<Rightarrow>
          prev = TOKEN_TYPE_NORMAL \<and> accepts TOKEN_TYPE_STATEMENT_END d ts
      | TOKEN_TYPE_START_BLOCK \<Rightarrow>
          prev = TOKEN_TYPE_NORMAL \<and> accepts TOKEN_TYPE_START_BLOCK (Suc d) ts
      | TOKEN_TYPE_END_BLOCK \<Rightarrow>
          prev \<in> {TOKEN_TYPE_STATEMENT_END, TOKEN_TYPE_END_BLOCK, TOKEN_TYPE_START_BLOCK} \<and>
          d \<noteq> 0 \<and> accepts TOKEN_TYPE_END_BLOCK (d - 1) ts
      | TOKEN_TYPE_EOF \<Rightarrow>
          prev \<in> {TOKEN_TYPE_STATEMENT_END, TOKEN_TYPE_END_BLOCK, TOKEN_TYPE_START} \<and> d = 0)"

lemma accepts_comments:
  "accepts prev d ts = accepts prev d (filter (\<lambda>ty. ty \<noteq> TOKEN_TYPE_COMMENT) ts)"
  by (induction prev d ts rule: accepts.induct) (auto split: TokenType.splits)

lemma accepts_normals:
  "accepts TOKEN_TYPE_NORMAL d (replicate n TOKEN_TYPE_NORMAL @ ts) = accepts TOKEN_TYPE_NORMAL d ts"
  by (induction n) simp_all

abbreviation between :: "TokenType \<Rightarrow> bool" where
  "between prev \<equiv> prev \<in> {TOKEN_TYPE_START, TOKEN_TYPE_STATEMENT_END, TOKEN_TYPE_START_BLOCK,
     TOKEN_TYPE_END_BLOCK}"

lemma accepts_some_normals:
  "between prev \<Longrightarrow>
   accepts prev d (replicate (Suc n) TOKEN_TYPE_NORMAL @ ts) = accepts TOKEN_TYPE_NORMAL d ts"
  by (auto simp: accepts_normals)

text \<open>A block leaves the machine at the same depth, between two statements.\<close>

lemma accepts_block:
  "block ts \<Longrightarrow> between prev \<Longrightarrow>
   \<exists>prev'. prev' \<in> {TOKEN_TYPE_STATEMENT_END, TOKEN_TYPE_END_BLOCK, prev} \<and>
     accepts prev d (ts @ rest) = accepts prev' d rest"
proof (induction ts arbitrary: prev d rest rule: block.induct)
  case block_empty
  then show ?case by auto
next
  case (block_statement ts n)
  have "accepts prev d ((replicate (Suc n) TOKEN_TYPE_NORMAL @ TOKEN_TYPE_STATEMENT_END # ts) @ rest)
      = accepts TOKEN_TYPE_STATEMENT_END d (ts @ rest)"
    using accepts_some_normals [OF block_statement.prems] by simp
  then show ?case using block_statement.IH [of TOKEN_TYPE_STATEMENT_END d rest] by auto
next
  case (block_nested ts us n)
  have "accepts prev d ((replicate (Suc n) TOKEN_TYPE_NORMAL @ TOKEN_TYPE_START_BLOCK # ts @
        TOKEN_TYPE_END_BLOCK # us) @ rest)
      = accepts TOKEN_TYPE_START_BLOCK (Suc d) (ts @ TOKEN_TYPE_END_BLOCK # us @ rest)"
    using accepts_some_normals [OF block_nested.prems] by simp
  also have "\<dots> = accepts TOKEN_TYPE_END_BLOCK d (us @ rest)"
    using block_nested.IH(1) [of TOKEN_TYPE_START_BLOCK "Suc d" "TOKEN_TYPE_END_BLOCK # us @ rest"]
    by auto
  finally show ?case
    using block_nested.IH(2) [of TOKEN_TYPE_END_BLOCK d rest] by auto
qed

text \<open>What closes \<open>d\<close> open blocks.\<close>

fun closes :: "nat \<Rightarrow> TokenType list \<Rightarrow> bool" where
  "closes 0 ts \<longleftrightarrow> (\<exists>b r. block b \<and> ts = b @ TOKEN_TYPE_EOF # r)"
| "closes (Suc d) ts \<longleftrightarrow> (\<exists>b r. block b \<and> ts = b @ TOKEN_TYPE_END_BLOCK # r \<and> closes d r)"

lemma closes_prefix:
  assumes "\<And>c. block c \<Longrightarrow> block (p @ c)" "closes d ts"
  shows "closes d (p @ ts)"
proof (cases d)
  case 0
  then obtain b r where "block b" "ts = b @ TOKEN_TYPE_EOF # r"
    using assms(2) by auto
  then have "block (p @ b) \<and> p @ ts = (p @ b) @ TOKEN_TYPE_EOF # r"
    using assms(1) by simp
  then show ?thesis using 0 by (simp only: closes.simps) blast
next
  case (Suc k)
  then obtain b r where "block b" "ts = b @ TOKEN_TYPE_END_BLOCK # r" "closes k r"
    using assms(2) by auto
  then have "block (p @ b) \<and> p @ ts = (p @ b) @ TOKEN_TYPE_END_BLOCK # r \<and> closes k r"
    using assms(1) by simp
  then show ?thesis using Suc by (simp only: closes.simps) blast
qed

lemma closes_statement:
  assumes "closes d ts"
  shows "closes d (replicate (Suc n) TOKEN_TYPE_NORMAL @ TOKEN_TYPE_STATEMENT_END # ts)"
  using closes_prefix [of "replicate (Suc n) TOKEN_TYPE_NORMAL @ [TOKEN_TYPE_STATEMENT_END]" d ts]
    block_statement [of _ n] assms by simp

lemma closes_nested:
  assumes "closes (Suc d) ts"
  shows "closes d (replicate (Suc n) TOKEN_TYPE_NORMAL @ TOKEN_TYPE_START_BLOCK # ts)"
proof -
  obtain b r where b: "block b" "ts = b @ TOKEN_TYPE_END_BLOCK # r" "closes d r"
    using assms by auto
  show ?thesis
    using closes_prefix [of "replicate (Suc n) TOKEN_TYPE_NORMAL @ TOKEN_TYPE_START_BLOCK # b @
        [TOKEN_TYPE_END_BLOCK]" d r] block_nested [OF b(1), of _ n] b(2,3) by simp
qed

lemma closes_END_BLOCK: "closes d ts \<Longrightarrow> closes (Suc d) (TOKEN_TYPE_END_BLOCK # ts)"
  unfolding closes.simps(2) [of d "TOKEN_TYPE_END_BLOCK # ts"]
  by (intro exI [where x = "[]"] exI [where x = ts]) (simp add: block_empty)

lemma closes_EOF: "closes 0 (TOKEN_TYPE_EOF # ts)"
  unfolding closes.simps(1)
  by (intro exI [where x = "[]"] exI [where x = ts]) (simp add: block_empty)

lemma accepts_closes:
  "TOKEN_TYPE_COMMENT \<notin> set ts \<Longrightarrow> accepts prev d ts \<Longrightarrow>
   (if prev = TOKEN_TYPE_NORMAL
    then \<exists>n ts'. (ts = replicate n TOKEN_TYPE_NORMAL @ TOKEN_TYPE_STATEMENT_END # ts' \<and> closes d ts') \<or>
           (ts = replicate n TOKEN_TYPE_NORMAL @ TOKEN_TYPE_START_BLOCK # ts' \<and> closes (Suc d) ts')
    else closes d ts)"
proof (induction prev d ts rule: accepts.induct)
  case (1 prev d)
  then show ?case by simp
next
  case (2 prev d ty ts)
  show ?case
  proof (cases ty)
    case TOKEN_TYPE_NORMAL
    have normal: "\<exists>n ts'. (ts = replicate n TOKEN_TYPE_NORMAL @ TOKEN_TYPE_STATEMENT_END # ts' \<and> closes d ts') \<or>
        (ts = replicate n TOKEN_TYPE_NORMAL @ TOKEN_TYPE_START_BLOCK # ts' \<and> closes (Suc d) ts')"
      using 2 TOKEN_TYPE_NORMAL by simp
    then obtain n ts' where
      "(ty # ts = replicate (Suc n) TOKEN_TYPE_NORMAL @ TOKEN_TYPE_STATEMENT_END # ts' \<and> closes d ts') \<or>
        (ty # ts = replicate (Suc n) TOKEN_TYPE_NORMAL @ TOKEN_TYPE_START_BLOCK # ts' \<and> closes (Suc d) ts')"
      using TOKEN_TYPE_NORMAL by auto
    note runs = this
    show ?thesis
    proof (cases "prev = TokenType.TOKEN_TYPE_NORMAL")
      case True
      show ?thesis unfolding if_P [OF True] using runs by blast
    next
      case False
      show ?thesis
        unfolding if_not_P [OF False]
        using runs closes_statement [of d ts' n] closes_nested [of d ts' n] by metis
    qed
  next
    case TOKEN_TYPE_STATEMENT_END
    then show ?thesis using 2 by (simp, metis append_Nil replicate_0)
  next
    case TOKEN_TYPE_START_BLOCK
    then show ?thesis using 2 by (simp, metis append_Nil replicate_0)
  next
    case TOKEN_TYPE_END_BLOCK
    then show ?thesis using 2 closes_END_BLOCK by (cases d) (auto simp del: closes.simps)
  next
    case TOKEN_TYPE_EOF
    then show ?thesis using 2 closes_EOF by (auto simp del: closes.simps)
  qed (use 2 in auto)
qed

lemma accepts_iff_closes:
  assumes "TOKEN_TYPE_COMMENT \<notin> set ts"
  shows "accepts TOKEN_TYPE_START 0 ts \<longleftrightarrow> closes 0 ts"
proof
  show "accepts TOKEN_TYPE_START 0 ts \<Longrightarrow> closes 0 ts"
    using accepts_closes [OF assms, of TOKEN_TYPE_START 0] by simp
next
  assume "closes 0 ts"
  then obtain b r where "block b" "ts = b @ TOKEN_TYPE_EOF # r" by auto
  then show "accepts TOKEN_TYPE_START 0 ts"
    using accepts_block [of b TOKEN_TYPE_START 0 "TOKEN_TYPE_EOF # r"] by auto
qed

text \<open>\<open>EOF\<close> can only be the last token.\<close>

lemma tokens_of_EOF:
  "map fst (tokens_of input) = b @ TOKEN_TYPE_EOF # r \<Longrightarrow> r = []"
proof (induction input arbitrary: b rule: tokens_of.induct)
  case (1 input)
  obtain ty tok rest where p: "parse_token input = (ty, tok, rest)"
    by (cases "parse_token input") auto
  show ?case
  proof (cases "ty = TOKEN_TYPE_EOF \<or> ty = TOKEN_TYPE_ERROR")
    case True
    then have "map fst (tokens_of input) = [ty]"
      using p by (auto simp: tokens_of.simps [of input])
    then show ?thesis using "1.prems" by (simp add: append_eq_Cons_conv)
  next
    case False
    then have "b @ TOKEN_TYPE_EOF # r = ty # map fst (tokens_of rest)"
      using p "1.prems" by (simp add: tokens_of.simps [of input])
    then obtain b' where "map fst (tokens_of rest) = b' @ TOKEN_TYPE_EOF # r"
      using False by (cases b) (auto intro: that [OF sym])
    then show ?thesis
      using "1.IH" [OF p [symmetric] refl False] by blast
  qed
qed

text \<open>The other parts of an iteration leave the stacks and the previous token type alone.\<close>

definition same_structure :: "parse_vars \<Rightarrow> parse_vars \<Rightarrow> bool" where
  "same_structure v w \<longleftrightarrow> stack_depth w = stack_depth v \<and> bracket_stack w = bracket_stack v \<and>
     last_token_type w = last_token_type v \<and> statements (config w) = statements (config v)"

lemma same_structure_refl: "same_structure v v"
  and same_structure_trans: "same_structure u v \<Longrightarrow> same_structure v w \<Longrightarrow> same_structure u w"
  by (simp_all add: same_structure_def)

lemma same_structure_ok: "same_structure v w \<Longrightarrow> structure_ok v \<Longrightarrow> structure_ok w"
  by (auto simp: same_structure_def structure_ok_def)

lemma same_save_port: "same_structure v (save_port tok v)"
  by (simp add: same_structure_def save_port_def SetConfigPortNumberFromToken_def split: sum.split)

lemma same_save_proxy_port: "all_ok (same_structure v) (save_proxy_port tok v)"
proof (cases "save_proxy_port_val v")
  case True
  then show ?thesis
    unfolding save_proxy_port_def
    by (cases "IsValidPortNum tok"; cases "stoi 10 tok"; cases "stoi 10 port_keyword")
      (simp_all add: same_structure_def)
qed (simp add: save_proxy_port_def same_structure_refl)

lemma same_save_strings:
  "all_ok (\<lambda>(tok, w). same_structure v w) (save_root tok v)"
  "all_ok (same_structure v) (save_proxy_host tok v)"
  "all_ok (same_structure v) (save_redirect_host tok v)"
  "all_ok (same_structure v) (save_blog_ip tok v)"
  "all_ok (same_structure v) (save_blog_port_value tok v)"
  "all_ok (same_structure v) (save_blog_username_value tok v)"
  "all_ok (same_structure v) (save_blog_password_value tok v)"
  "all_ok (same_structure v) (location_token tok v)"
  unfolding save_root_def save_proxy_host_def save_redirect_host_def save_blog_ip_def
    save_blog_port_value_def save_blog_username_value_def save_blog_password_value_def location_token_def
  by (cases "unquote tok"; simp add: same_structure_def)+

lemma same_from: "all_ok (same_structure w) r \<Longrightarrow> same_structure v w \<Longrightarrow> all_ok (same_structure v) r"
  by (auto simp: all_ok_def intro: same_structure_trans)

lemma same_bind:
  assumes "\<And>w. all_ok (same_structure w) (g w)" "same_structure v w"
    "\<And>u. same_structure v u \<Longrightarrow> all_ok Q (f u)"
  shows "all_ok Q (and_then (g w) f)"
  by (rule all_ok_and_then [OF same_from [OF assms(1,2)] assms(3)])

lemma same_save_values: "all_ok (\<lambda>(tok, w). same_structure v w) (save_values tok v)"
proof -
  note strings = same_save_strings [of _ tok] same_save_strings(2-8)
  have root: "all_ok (\<lambda>(tok, u). same_structure v u) (save_root tok w)" if "same_structure v w" for w
    using same_save_strings(1) [of w tok] same_structure_trans [OF that] by (auto simp: all_ok_def)
  show ?thesis
    unfolding save_values_def
    by (rule same_bind [OF same_save_proxy_port same_save_port], rule all_ok_and_then [OF root], assumption)
      (auto intro!: same_bind [OF same_save_strings(2)] same_bind [OF same_save_strings(3)]
        same_bind [OF same_save_strings(4)] same_bind [OF same_save_strings(5)]
        same_bind [OF same_save_strings(6)] same_bind [OF same_save_strings(7)])
qed

lemma same_handler_type: "same_structure v (handler_type_token tok v)"
proof -
  have split: "same_structure v a \<Longrightarrow> same_structure v b \<Longrightarrow> same_structure v (if c then a else b)" for a b c
    by simp
  show ?thesis
    unfolding handler_type_token_def Let_def
    by (intro split)
      (simp_all add: same_structure_def note_handler_type_def location_done_def)
qed

lemma same_keyword: "same_structure v (note_keyword tok v)"
  by (simp add: same_structure_def note_keyword_def)

text \<open>An iteration is: the values and keywords, which may fail, then \<open>token_transition\<close>.\<close>

lemma iteration_cases:
  obtains (error) e where "iteration_step ty tok v = Inl e"
  | (transition) tok' w where "same_structure v w" "iteration_step ty tok v = token_transition ty tok' w"
proof (cases "save_values tok v")
  case (Inl e)
  then show thesis by (intro error) (simp add: iteration_step_def)
next
  case (Inr r)
  obtain tok' u where r: "r = (tok', u)" by (cases r)
  have u: "same_structure v u"
    using same_save_values [of v tok] Inr r by simp
  show thesis
  proof (cases "location_token tok' (handler_type_token tok' u)")
    case (Inl e)
    then show thesis using Inr r by (intro error) (simp add: iteration_step_def)
  next
    case (Inr w)
    have "same_structure (handler_type_token tok' u) w"
      using same_save_strings(8) [of "handler_type_token tok' u" tok'] Inr by simp
    then have "same_structure v (note_keyword tok' w)"
      using same_structure_trans u same_handler_type same_keyword by metis
    then show thesis
      using \<open>save_values tok v = Inr r\<close> r Inr by (intro transition) (auto simp: iteration_step_def)
  qed
qed

text \<open>What the machine of the verdict does at the end of an iteration.\<close>

fun verdict_left :: "loop_end \<Rightarrow> TokenType list \<Rightarrow> bool" where
  "verdict_left (Return b w) ts = b"
| "verdict_left (Again w) ts = accepts (last_token_type w) (stack_depth w) ts"

lemma on_top_same:
  "on_top f v = Inr w \<Longrightarrow> stack_depth w = stack_depth v \<and> bracket_stack w = bracket_stack v \<and>
     last_token_type w = last_token_type v"
  by (auto simp: on_top_def and_then_Inr)

lemma transition_verdict:
  assumes "structure_ok v" "token_transition ty tok v = Inr r"
  shows "accepts (last_token_type v) (stack_depth v) (ty # ts) = verdict_left r ts"
proof -
  have depth: "stack_depth v = length (bracket_stack v)"
    using assms(1) by (simp add: structure_ok_def)
  show ?thesis
  proof (cases ty)
    case TOKEN_TYPE_NORMAL
    then show ?thesis using assms(2)
      by (auto simp: token_transition_def Let_def and_then_Inr split: if_splits dest!: on_top_same)
  next
    case TOKEN_TYPE_START_BLOCK
    then show ?thesis using assms(2)
      by (auto simp: token_transition_def Let_def and_then_Inr split: if_splits dest!: on_top_same)
  next
    case TOKEN_TYPE_END_BLOCK
    then show ?thesis using assms(2) depth
      by (auto simp: token_transition_def Let_def clear_flags_def split: if_splits)
  next
    case TOKEN_TYPE_EOF
    then show ?thesis using assms(2) depth
      by (auto simp: token_transition_def Let_def split: if_splits)
  qed (use assms(2) in \<open>auto simp: token_transition_def Let_def split: if_splits\<close>)
qed

lemma parse_loop_verdict:
  "structure_ok v \<Longrightarrow> parse_loop v input = Inr (b, cfg) \<Longrightarrow>
   b = accepts (last_token_type v) (stack_depth v) (map fst (tokens_of input))"
proof (induction v input rule: parse_loop.induct)
  case (1 v input)
  obtain ty tok rest where p: "parse_token input = (ty, tok, rest)"
    by (cases "parse_token input") auto
  define ts where "ts = (if ty = TOKEN_TYPE_EOF \<or> ty = TOKEN_TYPE_ERROR then [] else map fst (tokens_of rest))"
  have types: "map fst (tokens_of input) = ty # ts"
    using p by (simp add: tokens_of.simps [of input] ts_def)
  have loop: "parse_loop v input = (case iteration_step ty tok v of Inl e \<Rightarrow> Inl e
      | Inr (Return b v') \<Rightarrow> Inr (b, config v') | Inr (Again v') \<Rightarrow> parse_loop v' rest)"
    using p by (simp add: parse_loop.simps [of v])
  show ?case
  proof (cases rule: iteration_cases [of ty tok v])
    case (error e)
    then show ?thesis using "1.prems" loop by simp
  next
    case (transition tok' w)
    then have w: "structure_ok w" using same_structure_ok "1.prems" by blast
    then obtain r where r: "token_transition ty tok' w = Inr r" "end_structure_ok r"
      using transition_structure_ok by blast
    have "accepts (last_token_type v) (stack_depth v) (ty # ts) = verdict_left r ts"
      using transition_verdict [OF w r(1), of ts] transition(1)
      by (simp add: same_structure_def del: accepts.simps)
    moreover have "b = verdict_left r ts"
    proof (cases r)
      case (Again v')
      then have "iteration_step ty tok v = Inr (Again v')" "structure_ok v'"
        using r transition by simp_all
      then show ?thesis
        using "1.IH" [OF p [symmetric] refl _ refl] "1.prems"(2) loop Again iteration_step_Again
        by (fastforce simp: ts_def)
    next
      case (Return c v')
      then show ?thesis using "1.prems"(2) loop transition r by simp
    qed
    ultimately show ?thesis using types by simp
  qed
qed

lemma parse_config_verdict:
  assumes "parse_config input cfg = Inr (b, cfg')"
  shows "b \<longleftrightarrow> (\<exists>ts. filter (\<lambda>ty. ty \<noteq> TOKEN_TYPE_COMMENT) (map fst (tokens_of input)) =
     ts @ [TOKEN_TYPE_EOF] \<and> block ts)"
proof -
  let ?all = "map fst (tokens_of input)" and ?plain = "filter (\<lambda>ty. ty \<noteq> TOKEN_TYPE_COMMENT)"
  have "b = accepts TOKEN_TYPE_START 0 ?all"
    using parse_loop_verdict [OF structure_ok_new] assms
    by (force simp: parse_config_def new_vars_def)
  also have "\<dots> = closes 0 (?plain ?all)"
    using accepts_comments [of _ _ ?all] accepts_iff_closes [of "?plain ?all"] by simp
  also have "\<dots> \<longleftrightarrow> (\<exists>ts. ?plain ?all = ts @ [TOKEN_TYPE_EOF] \<and> block ts)"
  proof -
    have "r = []" if eq: "?plain ?all = ts @ TOKEN_TYPE_EOF # r" for ts r
    proof -
      have "TOKEN_TYPE_EOF \<in> set (?plain ?all)" using eq by simp
      then obtain xs ys where all: "?all = xs @ TOKEN_TYPE_EOF # ys"
        by (metis (no_types) filter_is_subset split_list subsetD)
      then have "ys = []" by (rule tokens_of_EOF)
      have "TOKEN_TYPE_EOF \<notin> set xs"
      proof
        assume "TOKEN_TYPE_EOF \<in> set xs"
        then obtain us vs where "xs = us @ TOKEN_TYPE_EOF # vs" by (auto dest: split_list)
        then show False using tokens_of_EOF [of input us "vs @ TOKEN_TYPE_EOF # ys"] all by simp
      qed
      then have last: "?plain xs @ [TOKEN_TYPE_EOF] = ts @ TOKEN_TYPE_EOF # r" "TOKEN_TYPE_EOF \<notin> set (?plain xs)"
        using eq all \<open>ys = []\<close> by simp_all
      show ?thesis
      proof (rule ccontr)
        assume "r \<noteq> []"
        then have "?plain xs = ts @ TOKEN_TYPE_EOF # butlast r"
          using arg_cong [OF last(1), of butlast] by (simp add: butlast_append)
        then have "TOKEN_TYPE_EOF \<in> set (?plain xs)" by (metis in_set_conv_decomp)
        then show False using last(2) by simp
      qed
    qed
    then show ?thesis unfolding closes.simps(1) by blast
  qed
  finally show ?thesis .
qed

end
