(* ===== verification/ConfigPrint.thy ===== *)
theory ConfigPrint
  imports ConfigParser
begin

text \<open>
  The parser reads back a printed configuration: a port statement and location blocks of every
  kind of handler.
\<close>

subsection \<open>Tokens of a printed input\<close>

fun scans :: "string \<Rightarrow> (TokenType \<times> string) list \<Rightarrow> string \<Rightarrow> bool" where
  "scans input [] rest \<longleftrightarrow> input = rest"
| "scans input ((ty, tok) # toks) rest \<longleftrightarrow>
     (\<exists>r. parse_token input = (ty, tok, r) \<and> scans r toks rest)"

lemma scans_append: "scans a xs b \<Longrightarrow> scans b ys c \<Longrightarrow> scans a (xs @ ys) c"
  by (induction a xs b rule: scans.induct) auto

definition word_char :: "char \<Rightarrow> bool" where
  "word_char c \<longleftrightarrow> c \<notin> {SP, TAB, LF, CR, CHR '';'', CHR ''{'', CHR ''}'', CHR ''#'', SQ, DQ}"

definition word_ok :: "string \<Rightarrow> bool" where
  "word_ok w \<longleftrightarrow> w \<noteq> [] \<and> list_all word_char w"

lemma scan_normal:
  "list_all word_char w \<Longrightarrow> c \<in> {SP, TAB, LF, CHR '';'', CHR ''{'', CHR ''}''} \<Longrightarrow>
   scan_token TOKEN_STATE_TOKEN_TYPE_NORMAL v (w @ c # cs) = (TOKEN_TYPE_NORMAL, v @ w, c # cs)"
  by (induction w arbitrary: v) (auto simp: word_char_def)

lemma parse_word:
  assumes "word_ok w" "c \<in> {SP, TAB, LF, CHR '';'', CHR ''{'', CHR ''}''}"
  shows "parse_token (w @ c # cs) = (TOKEN_TYPE_NORMAL, w, c # cs)"
proof (cases w)
  case (Cons a w')
  then show ?thesis
    using scan_normal [of w' c "[a]" cs] assms
    by (auto simp: parse_token_def word_ok_def word_char_def)
qed (use assms in \<open>simp add: word_ok_def\<close>)

definition quoted :: "string \<Rightarrow> string" where "quoted s = DQ # s @ [DQ]"

lemma scan_quoted:
  "DQ \<notin> set s \<Longrightarrow> scan_token TOKEN_STATE_DOUBLE_QUOTE v (s @ DQ # cs) = (TOKEN_TYPE_NORMAL, v @ s @ [DQ], cs)"
  by (induction s arbitrary: v) auto

lemma parse_quoted: "DQ \<notin> set s \<Longrightarrow> parse_token (quoted s @ cs) = (TOKEN_TYPE_NORMAL, quoted s, cs)"
  using scan_quoted [of s "[DQ]" cs] by (simp add: parse_token_def quoted_def)

lemma parse_space: "parse_token (SP # cs) = parse_token cs" "parse_token (LF # cs) = parse_token cs"
  by (simp_all add: parse_token_def)

lemma parse_punctuation:
  "parse_token (CHR '';'' # cs) = (TOKEN_TYPE_STATEMENT_END, '';'', cs)"
  "parse_token (CHR ''{'' # cs) = (TOKEN_TYPE_START_BLOCK, ''{'', cs)"
  "parse_token (CHR ''}'' # cs) = (TOKEN_TYPE_END_BLOCK, ''}'', cs)"
  "parse_token [] = (TOKEN_TYPE_EOF, [], [])"
  by (simp_all add: parse_token_def)

lemma unquote_quoted: "unquote (quoted s) = Inr s"
  by (simp add: unquote_def quoted_def substr_def)

subsection \<open>Runs\<close>

fun run_tokens :: "parse_vars \<Rightarrow> (TokenType \<times> string) list \<Rightarrow> cpp_error + loop_end" where
  "run_tokens v [] = Inr (Again v)"
| "run_tokens v ((ty, tok) # toks) =
     (case iteration_step ty tok v of
        Inl e \<Rightarrow> Inl e
      | Inr (Return b w) \<Rightarrow> Inr (Return b w)
      | Inr (Again w) \<Rightarrow> run_tokens w toks)"

lemma parse_loop_scans:
  "scans input toks rest \<Longrightarrow> run_tokens v toks = Inr (Again w) \<Longrightarrow> parse_loop v input = parse_loop w rest"
  by (induction v toks arbitrary: input rule: run_tokens.induct)
    (auto simp: parse_loop.simps [of _ input for input] split: sum.splits loop_end.splits)

lemma run_tokens_append:
  "run_tokens v xs = Inr (Again w) \<Longrightarrow> run_tokens v (xs @ ys) = run_tokens w ys"
  by (induction v xs rule: run_tokens.induct) (auto split: sum.splits loop_end.splits)

text \<open>The state of the parser between two statements of the outermost block.\<close>

definition idle ::
  "NginxConfig \<Rightarrow> TokenType \<Rightarrow> string \<Rightarrow> string \<Rightarrow> string list \<Rightarrow> parse_vars" where
  "idle c prev loc host seen = \<lparr>config = c, stack_depth = 0, bracket_stack = [],
     last_token_type = prev, save_port_val = False, seen_location = False, save_root_val = False,
     expect_handler_type = False, expect_static_root = False, expect_proxy_host = False,
     save_proxy_host_val = False, expect_proxy_port = False, save_proxy_port_val = False,
     expect_redirect_host = False, save_redirect_host_val = False, expect_blog_info = False,
     save_blog_ip_val = False, save_blog_port = False, save_blog_username = False,
     save_blog_password = False, location = loc, store_proxy_location_token = host,
     seen_handlers = seen\<rparr>"

text \<open>A location block for each kind of handler.\<close>

datatype place =
    EchoPlace | StatusPlace | HealthPlace | UploadFormPlace | StaticPlace string
  | RedirectPlace string | ProxyPlace string nat | BlogPlace string string string string

abbreviation N :: "string \<Rightarrow> TokenType \<times> string" where "N tok \<equiv> (TOKEN_TYPE_NORMAL, tok)"
abbreviation SE :: "TokenType \<times> string" where "SE \<equiv> (TOKEN_TYPE_STATEMENT_END, '';'')"

fun handler_name :: "place \<Rightarrow> string" where
  "handler_name EchoPlace = ''EchoHandler''"
| "handler_name StatusPlace = ''StatusHandler''"
| "handler_name HealthPlace = ''HealthHandler''"
| "handler_name UploadFormPlace = ''UploadFormHandler''"
| "handler_name (StaticPlace r) = ''StaticHandler''"
| "handler_name (RedirectPlace h) = ''RedirectHandler''"
| "handler_name (ProxyPlace h p) = ''ProxyHandler''"
| "handler_name (BlogPlace h p u w) = ''BlogHandler''"

text \<open>The settings inside the block, keyword and value.\<close>

fun settings :: "place \<Rightarrow> (string \<times> string) list" where
  "settings (StaticPlace r) = [(''root'', quoted r)]"
| "settings (RedirectPlace h) = [(''host'', quoted h)]"
| "settings (ProxyPlace h p) = [(''host'', quoted h), (''port'', dec_string p)]"
| "settings (BlogPlace h p u w) = [(''host'', quoted h), (''port'', quoted p),
     (''username'', quoted u), (''password'', quoted w)]"
| "settings _ = []"

definition setting_tokens :: "string \<times> string \<Rightarrow> (TokenType \<times> string) list" where
  "setting_tokens = (\<lambda>(k, val). [N k, N val, SE])"

definition place_tokens :: "string \<Rightarrow> place \<Rightarrow> (TokenType \<times> string) list" where
  "place_tokens l e = [N ''location'', N (quoted l), N (handler_name e), (TOKEN_TYPE_START_BLOCK, ''{'')]
     @ concat (map setting_tokens (settings e)) @ [(TOKEN_TYPE_END_BLOCK, ''}'')]"

definition print_setting :: "string \<times> string \<Rightarrow> string" where
  "print_setting = (\<lambda>(k, val). k @ '' '' @ val @ ''; '')"

definition print_place :: "string \<Rightarrow> place \<Rightarrow> string" where
  "print_place l e = ''location '' @ quoted l @ '' '' @ handler_name e @ '' { ''
     @ concat (map print_setting (settings e)) @ ''}'' @ [LF]"

text \<open>What a location block adds to the configuration.\<close>

fun add_place :: "string \<Rightarrow> place \<Rightarrow> NginxConfig \<Rightarrow> NginxConfig" where
  "add_place l EchoPlace c = c\<lparr>echo_locations := uset_insert l (echo_locations c)\<rparr>"
| "add_place l StatusPlace c = c\<lparr>status_locations := uset_insert l (status_locations c)\<rparr>"
| "add_place l HealthPlace c = c\<lparr>health_locations := uset_insert l (health_locations c)\<rparr>"
| "add_place l UploadFormPlace c = c\<lparr>upload_form_locations := uset_insert l (upload_form_locations c)\<rparr>"
| "add_place l (StaticPlace r) c = c\<lparr>static_locations := umap_put l r (static_locations c)\<rparr>"
| "add_place l (RedirectPlace h) c = c\<lparr>redirect_locations := umap_put l h (redirect_locations c)\<rparr>"
| "add_place l (ProxyPlace h p) c = c\<lparr>proxy_locations := umap_put l (h, int p) (proxy_locations c)\<rparr>"
| "add_place l (BlogPlace h p u w) c = c\<lparr>blog_ips := umap_put l h (blog_ips c),
     blog_ports := umap_put l p (blog_ports c), blog_usernames := umap_put l u (blog_usernames c),
     blog_passwords := umap_put l w (blog_passwords c)\<rparr>"

text \<open>
  The tokens that end up in the list of handler types: while a handler type is expected, every
  token is taken for one.
\<close>

fun noted :: "place \<Rightarrow> string list" where
  "noted (StaticPlace r) = [''StaticHandler'', ''{'', ''root'']"
| "noted (RedirectPlace h) = [''RedirectHandler'', ''{'', ''host'']"
| "noted (ProxyPlace h p) = [''ProxyHandler'', ''{'', ''host'']"
| "noted (BlogPlace h p u w) = [''BlogHandler'', ''{'', ''host'', quoted h, '';'', ''port'', quoted p,
     '';'', ''username'', quoted u, '';'', ''password'', quoted w, '';'', ''}'']"
| "noted e = [handler_name e]"

fun stored_settings :: "place \<Rightarrow> (string \<times> string) list" where
  "stored_settings (StaticPlace r) = [(''root'', r)]"
| "stored_settings e = settings e"

definition place_statement :: "string \<Rightarrow> place \<Rightarrow> statement" where
  "place_statement l e = Statement [''location'', quoted l, handler_name e]
     (Some (map (\<lambda>(k, val). Statement [k, val] None) (stored_settings e)))"

definition with_place :: "string \<Rightarrow> place \<Rightarrow> NginxConfig \<Rightarrow> NginxConfig" where
  "with_place l e c = (add_place l e c)\<lparr>statements := statements c @ [place_statement l e],
     handler_types := foldl (\<lambda>hs h. uset_insert h hs) (handler_types c) (noted e)\<rparr>"

lemma quoted_neq [simp]: "quoted s \<noteq> ''port''" "quoted s \<noteq> ''location''" "quoted s \<noteq> ''root''"
  "quoted s \<noteq> ''host''" "quoted s \<noteq> ''username''" "quoted s \<noteq> ''password''"
  "quoted s \<noteq> ''StaticHandler''" "quoted s \<noteq> ''RedirectHandler''" "quoted s \<noteq> ''ProxyHandler''"
  "quoted s \<noteq> ''BlogHandler''" "quoted s \<noteq> ''EchoHandler''" "quoted s \<noteq> ''StatusHandler''"
  "quoted s \<noteq> ''HealthHandler''" "quoted s \<noteq> ''UploadFormHandler''"
  by (simp_all add: quoted_def)

lemmas save_defs = save_values_def save_port_def save_proxy_port_def save_root_def
  save_proxy_host_def save_redirect_host_def save_blog_ip_def save_blog_port_value_def
  save_blog_username_value_def save_blog_password_value_def

lemma dec_string_digit: "\<not> (48 \<le> (of_char c :: nat) \<and> (of_char c :: nat) \<le> 57) \<Longrightarrow> c \<notin> set (dec_string n)"
  using dec_string_codes by blast

lemma dec_string_neq: "\<exists>c \<in> set s. \<not> (48 \<le> (of_char c :: nat) \<and> (of_char c :: nat) \<le> 57) \<Longrightarrow> dec_string n \<noteq> s"
  using dec_string_codes by blast

lemma dec_string_keyword [simp]: "dec_string n \<noteq> ''port''" "dec_string n \<noteq> ''location''"
  "dec_string n \<noteq> ''host''" "dec_string n \<noteq> ''root''"
  by (rule dec_string_neq; simp)+

lemma after_colon_dec_string [simp]: "after_colon (dec_string n) = dec_string n"
proof -
  have "CHR '':'' \<notin> set (dec_string n)" by (rule dec_string_digit) simp
  then have "find_from '':'' (dec_string n) 0 = None"
    using find_from_Some(2) [of "'':''" "dec_string n" 0]
    by (cases "find_from '':'' (dec_string n) 0") (auto dest!: find_from_Some simp: prefix_def,
        metis in_set_dropD list.set_intros(1))
  then show ?thesis by (simp add: after_colon_def)
qed

lemma stoi_port: "int p \<le> MAX_PORT \<Longrightarrow> stoi 10 (dec_string p) = Inr (int p)"
  by (rule stoi_dec_string) (simp add: in_int_range_def MAX_PORT_def INT_MIN_def INT_MAX_def)

lemma IsValidPortNum_dec_string: "int p \<le> MAX_PORT \<Longrightarrow> IsValidPortNum (dec_string p) = Inr True"
  by (simp add: IsValidPortNum_def stoi_port)

lemma note_eq:
  "seen_handlers v = handler_types (config v) \<Longrightarrow> note_handler_type tok v =
     v\<lparr>config := (config v)\<lparr>handler_types := uset_insert tok (handler_types (config v))\<rparr>,
       seen_handlers := uset_insert tok (handler_types (config v))\<rparr>"
  by (simp add: note_handler_type_def uset_insert_def)

lemma and_then_weak_cong: "r = s \<Longrightarrow> and_then r f = and_then s f"
  by simp

lemma stepI:
  assumes "save_values tok v = Inr (tok', v1)" "handler_type_token tok' v1 = v2"
    "location_token tok' v2 = Inr v3" "note_keyword tok' v3 = v4"
    "token_transition ty tok' v4 = Inr (Again v5)" "run_tokens v5 toks = r"
  shows "run_tokens v ((ty, tok) # toks) = r"
  using assms by (simp add: iteration_step_def)

lemmas transition_defs = token_transition_def on_top_def push_token_def open_block_def
  clear_flags_def Let_def

lemmas handler_defs = handler_type_token_def note_eq location_done_def Let_def

lemmas place_defs = place_tokens_def setting_tokens_def idle_def handler_name.simps settings.simps
  append.simps list.map concat.simps prod.case

fun place_ok :: "place \<Rightarrow> bool" where
  "place_ok (StaticPlace r) \<longleftrightarrow> DQ \<notin> set r \<and> r \<noteq> ''port'' \<and> r \<noteq> ''location''"
| "place_ok (RedirectPlace h) \<longleftrightarrow> DQ \<notin> set h"
| "place_ok (ProxyPlace h p) \<longleftrightarrow> DQ \<notin> set h \<and> int p \<le> MAX_PORT"
| "place_ok (BlogPlace h p u w) \<longleftrightarrow> DQ \<notin> set (h @ p @ u @ w)"
| "place_ok _ \<longleftrightarrow> True"

text \<open>The variables \<open>location\<close> and \<open>store_proxy_location_token\<close> after the block.\<close>

fun location_after :: "string \<Rightarrow> place \<Rightarrow> string" where
  "location_after l (RedirectPlace h) = l"
| "location_after l (BlogPlace h p u w) = l"
| "location_after l e = []"

fun host_after :: "string \<Rightarrow> place \<Rightarrow> string" where
  "host_after host (ProxyPlace h p) = h"
| "host_after host e = host"

lemmas run_place_defs = place_tokens_def setting_tokens_def idle_def handler_name.simps settings.simps
  append.simps list.map concat.simps prod.case location_after.simps host_after.simps place_ok.simps

lemma run_place:
  assumes prev: "prev = TOKEN_TYPE_START \<or> prev = TOKEN_TYPE_STATEMENT_END \<or>
      prev = TOKEN_TYPE_START_BLOCK \<or> prev = TOKEN_TYPE_END_BLOCK" "prev \<noteq> TOKEN_TYPE_NORMAL"
    and "place_ok e"
  shows "run_tokens (idle c prev loc host (handler_types c)) (place_tokens l e) =
    Inr (Again (idle (with_place l e c) TOKEN_TYPE_END_BLOCK (location_after l e) (host_after host e)
      (handler_types (with_place l e c))))"
  by (insert assms(3), (cases e; hypsubst; unfold run_place_defs; (elim conjE)?;
    ((rule stepI,
      simp add: save_defs unquote_quoted IsValidPortNum_dec_string stoi_port cong: and_then_weak_cong,
      simp add: handler_defs,
      simp add: location_token_def unquote_quoted,
      simp add: note_keyword_def,
      simp add: transition_defs prev cong: and_then_weak_cong)+,
    simp add: with_place_def place_statement_def)))

subsection \<open>Configurations\<close>

datatype item = PortItem nat | LocationItem string place

fun item_ok :: "item \<Rightarrow> bool" where
  "item_ok (PortItem p) \<longleftrightarrow> int p \<le> MAX_PORT"
| "item_ok (LocationItem l e) \<longleftrightarrow> DQ \<notin> set l \<and> place_ok e"

fun item_tokens :: "item \<Rightarrow> (TokenType \<times> string) list" where
  "item_tokens (PortItem p) = [N ''port'', N (dec_string p), SE]"
| "item_tokens (LocationItem l e) = place_tokens l e"

fun print_item :: "item \<Rightarrow> string" where
  "print_item (PortItem p) = ''port '' @ dec_string p @ '';'' @ [LF]"
| "print_item (LocationItem l e) = print_place l e"

fun with_item :: "item \<Rightarrow> NginxConfig \<Rightarrow> NginxConfig" where
  "with_item (PortItem p) c = c\<lparr>port_number := int p,
     statements := statements c @ [Statement [''port'', dec_string p] None]\<rparr>"
| "with_item (LocationItem l e) c = with_place l e c"

definition print_config :: "item list \<Rightarrow> string" where
  "print_config items = concat (map print_item items)"

abbreviation starts :: "TokenType \<Rightarrow> bool" where
  "starts prev \<equiv> (prev = TOKEN_TYPE_START \<or> prev = TOKEN_TYPE_STATEMENT_END \<or>
      prev = TOKEN_TYPE_START_BLOCK \<or> prev = TOKEN_TYPE_END_BLOCK) \<and> prev \<noteq> TOKEN_TYPE_NORMAL"

lemma run_port:
  assumes "starts prev" "int p \<le> MAX_PORT"
  shows "run_tokens (idle c prev loc host seen) (item_tokens (PortItem p)) =
    Inr (Again (idle (with_item (PortItem p) c) TOKEN_TYPE_STATEMENT_END loc host seen))"
  unfolding idle_def item_tokens.simps
  by ((rule stepI,
      simp add: save_defs SetConfigPortNumberFromToken_def stoi_port assms cong: and_then_weak_cong,
      simp add: handler_defs,
      simp add: location_token_def,
      simp add: note_keyword_def,
      simp add: transition_defs assms cong: and_then_weak_cong)+,
    simp add: assms)

lemma run_item:
  assumes "starts prev" "item_ok i"
  obtains prev' loc' host' where "starts prev'" "prev' \<noteq> TOKEN_TYPE_START_BLOCK"
    "run_tokens (idle c prev loc host (handler_types c)) (item_tokens i) =
       Inr (Again (idle (with_item i c) prev' loc' host' (handler_types (with_item i c))))"
proof (cases i)
  case (PortItem p)
  then show thesis
    using run_port [of prev p c loc host "handler_types c"] assms
    by (intro that [of TOKEN_TYPE_STATEMENT_END loc host]) simp_all
next
  case (LocationItem l e)
  then show thesis
    using run_place [of prev e c loc host l] assms
    by (intro that [of TOKEN_TYPE_END_BLOCK "location_after l e" "host_after host e"]) simp_all
qed

lemma scans_space: "scans (SP # cs) (t # ts) rest = scans cs (t # ts) rest"
  by (cases t) (simp add: parse_space)

lemma words: "word_ok ''port''" "word_ok ''location''" "word_ok ''root''" "word_ok ''host''"
  "word_ok ''username''" "word_ok ''password''" "word_ok (handler_name e)"
  by (cases e; simp add: word_ok_def word_char_def)+

lemma word_ok_dec_string: "word_ok (dec_string n)"
  unfolding word_ok_def list_all_iff word_char_def
  by (auto dest!: dec_string_codes)

definition value_ok :: "string \<Rightarrow> bool" where
  "value_ok x \<longleftrightarrow> word_ok x \<or> (\<exists>s. DQ \<notin> set s \<and> x = quoted s)"

lemma parse_value: "value_ok x \<Longrightarrow> parse_token (x @ CHR '';'' # cs) = (TOKEN_TYPE_NORMAL, x, CHR '';'' # cs)"
  using parse_word [of x "CHR '';''" cs] parse_quoted unfolding value_ok_def by auto

lemma settings_ok:
  "place_ok e \<Longrightarrow> (k, x) \<in> set (settings e) \<Longrightarrow> word_ok k \<and> value_ok x"
  by (cases e) (auto simp: words value_ok_def word_ok_dec_string)

lemma scans_settings:
  assumes "\<And>k x. (k, x) \<in> set ss \<Longrightarrow> word_ok k \<and> value_ok x"
  shows "scans (SP # concat (map print_setting ss) @ CHR ''}'' # rest)
    (concat (map setting_tokens ss) @ [(TOKEN_TYPE_END_BLOCK, ''}'')]) rest"
  using assms
proof (induction ss)
  case Nil
  then show ?case by (simp add: parse_space parse_punctuation)
next
  case (Cons s ss)
  obtain k x where s: "s = (k, x)" by (cases s)
  then have ok: "word_ok k" "value_ok x" using Cons.prems by auto
  have "scans (SP # concat (map print_setting ss) @ CHR ''}'' # rest)
      (concat (map setting_tokens ss) @ [(TOKEN_TYPE_END_BLOCK, ''}'')]) rest"
    using Cons by auto
  then show ?case
    using parse_word [OF ok(1), of SP] parse_value [OF ok(2)]
    by (simp add: s print_setting_def setting_tokens_def parse_space parse_punctuation)
qed

lemma scans_place:
  assumes "DQ \<notin> set l" "place_ok e"
  shows "scans (print_place l e @ rest) (place_tokens l e) (LF # rest)"
proof -
  have "scans (SP # concat (map print_setting (settings e)) @ CHR ''}'' # LF # rest)
      (concat (map setting_tokens (settings e)) @ [(TOKEN_TYPE_END_BLOCK, ''}'')]) (LF # rest)"
    by (rule scans_settings [OF settings_ok [OF assms(2)]])
  then show ?thesis
    using parse_word [OF words(2), of SP] parse_word [OF words(7) [of e], of SP]
      parse_quoted [OF assms(1)]
    by (simp add: print_place_def place_tokens_def parse_space parse_punctuation)
qed

lemma scans_item: "item_ok i \<Longrightarrow> scans (print_item i @ rest) (item_tokens i) (LF # rest)"
  using parse_word [OF words(1), of SP] parse_word [OF word_ok_dec_string, of "CHR '';''"]
  by (cases i) (simp_all add: scans_place parse_space parse_punctuation)

lemma parse_loop_LF: "parse_loop v (LF # cs) = parse_loop v cs"
  by (simp add: parse_loop.simps [of v] parse_space)

lemma parse_loop_EOF:
  assumes "starts prev" "prev \<noteq> TOKEN_TYPE_START_BLOCK"
  shows "parse_loop (idle c prev loc host seen) [] = Inr (True, c)"
proof -
  have prev: "prev = TOKEN_TYPE_STATEMENT_END \<or> prev = TOKEN_TYPE_END_BLOCK \<or> prev = TOKEN_TYPE_START"
    using assms by blast
  have "iteration_step TOKEN_TYPE_EOF [] (idle c prev loc host seen) =
      Inr (Return True (idle c prev loc host seen))"
    using prev
    by (simp add: idle_def iteration_step_def save_defs handler_type_token_def location_token_def
        note_keyword_def token_transition_def cong: and_then_weak_cong)
  then show ?thesis
    by (simp add: parse_loop.simps parse_punctuation) (simp add: idle_def)
qed

lemma parse_printed:
  assumes "list_all item_ok items" "starts prev" "prev \<noteq> TOKEN_TYPE_START_BLOCK"
  shows "parse_loop (idle c prev loc host (handler_types c)) (print_config items) =
    Inr (True, fold with_item items c)"
  using assms
proof (induction items arbitrary: c prev loc host)
  case Nil
  then show ?case by (simp add: print_config_def parse_loop_EOF)
next
  case (Cons i items)
  obtain prev' loc' host' where run: "starts prev'" "prev' \<noteq> TOKEN_TYPE_START_BLOCK"
    "run_tokens (idle c prev loc host (handler_types c)) (item_tokens i) =
       Inr (Again (idle (with_item i c) prev' loc' host' (handler_types (with_item i c))))"
    using run_item [of prev i c loc host] Cons.prems by auto
  have "scans (print_config (i # items)) (item_tokens i) (LF # print_config items)"
    using scans_item [of i "print_config items"] Cons.prems(1) by (simp add: print_config_def)
  from parse_loop_scans [OF this run(3)] show ?case
    using Cons.IH [OF _ run(1,2)] Cons.prems(1) by (simp add: parse_loop_LF)
qed

lemma parse_config_printed:
  assumes "list_all item_ok items"
  shows "parse_config (print_config items) new_config = Inr (True, fold with_item items new_config)"
proof -
  have "new_vars new_config = idle new_config TOKEN_TYPE_START [] [] (handler_types new_config)"
    by (simp add: new_vars_def idle_def) (simp add: new_config_def)
  then show ?thesis
    using parse_printed [OF assms] by (simp add: parse_config_def)
qed

end
