(* ===== verification/ConfigProperties.thy ===== *)
theory ConfigProperties
  imports ConfigFacts ConfigPrint
begin

text \<open>
  The properties of the configuration parser: which files it accepts, what the configuration then holds, and how
  the port numbers of a file are read.
\<close>

subsection \<open>Round trip\<close>

text \<open>
  C17. A configuration printed item by item (the listening port, and a block per location with its handler and its
  settings) is accepted, and parsing it gives the configuration that stores the items one after the other: the maps of
  locations, the statement tree and the list of handler types.
\<close>

theorem config_read_back:
  assumes "list_all item_ok items"
  shows "parse_config (print_config items) new_config = Inr (True, fold with_item items new_config)"
  by (rule parse_config_printed [OF assms])

abbreviation example_items :: "item list" where
  "example_items \<equiv> [PortItem 80, LocationItem ''/static'' (StaticPlace ''/files''),
     LocationItem ''/proxy'' (ProxyPlace ''127.0.0.1'' 8080)]"

lemma example_items_ok: "list_all item_ok example_items"
  by (simp add: MAX_PORT_def)

theorem config_read_back_witness:
  "parse_config (print_config example_items) new_config = Inr (True, fold with_item example_items new_config)"
  by (rule config_read_back [OF example_items_ok])

subsection \<open>The verdict and the result\<close>

text \<open>
  C18. When the parser returns, its verdict is the grammar: the token types of the input, comments left out, are a
  block (statements ended by a semicolon, or carrying a nested block in braces) followed by the end of the file.
\<close>

theorem config_verdict:
  assumes "parse_config input cfg = Inr (accepted, cfg')"
  shows "accepted \<longleftrightarrow> (\<exists>ts. filter (\<lambda>ty. ty \<noteq> TOKEN_TYPE_COMMENT) (map fst (tokens_of input)) =
     ts @ [TOKEN_TYPE_EOF] \<and> block ts)"
  by (rule parse_config_verdict [OF assms])

theorem config_verdict_witness:
  "True \<longleftrightarrow> (\<exists>ts. filter (\<lambda>ty. ty \<noteq> TOKEN_TYPE_COMMENT)
     (map fst (tokens_of (print_config example_items))) = ts @ [TOKEN_TYPE_EOF] \<and> block ts)"
  by (rule config_verdict [OF parse_config_printed [OF example_items_ok]])

text \<open>
  C19. Whatever the input and the verdict, the configuration is well-formed when \<open>Parse\<close> returns: the port is unset or
  a port number, no location is stored twice for a handler, and a handler type that has a location is in
  \<open>handler_types_\<close>, where the dispatcher will look for it.
\<close>

theorem config_invariant:
  assumes "parse_config input new_config = Inr (accepted, cfg)"
  shows "config_ok cfg"
  using vars_ok_parse_loop [OF vars_ok_new] assms by (simp add: parse_config_def)

theorem config_invariant_witness: "config_ok (fold with_item example_items new_config)"
  by (rule config_invariant [OF parse_config_printed [OF example_items_ok]])



subsection \<open>Port numbers\<close>

text \<open>
  C39. The listening port is the number after the colon of an address, when it is a port number (0 to 65535); any other
  number, one that does not fit an \<open>int\<close> included, leaves the configuration as it was.
\<close>

lemma after_colon_address: "CHR '':'' \<notin> set host \<Longrightarrow> after_colon (host @ CHR '':'' # s) = s"
proof -
  assume host: "CHR '':'' \<notin> set host"
  have "find_aux '':'' (host @ CHR '':'' # s) k = Some (k + length host)" for k
    using host by (induction host arbitrary: k) auto
  then show ?thesis by (simp add: after_colon_def find_from_def)
qed




text \<open>
  The port of a proxied server is checked and stored by two different readings of the token. With an address before
  the colon, the number after the colon is checked, but what is stored is the number the token starts with: the first
  part of the address.
\<close>

lemma stoi_dec_string_prefix:
  assumes "in_int_range (int a)" "\<not> digit_val c < 10"
  shows "stoi 10 (dec_string a @ c # s) = Inr (int a)"
proof -
  let ?s = "dec_string a" and ?h = "hd (dec_string a)"
  have h: "48 \<le> (of_char ?h :: nat)" "(of_char ?h :: nat) \<le> 57"
    using dec_string_codes [OF dec_string_hd] by auto
  have hd: "hd (?s @ c # s) = ?h" "?s @ c # s \<noteq> []" by simp_all
  have "\<not> is_space ?h" using h by (simp add: is_space_def Let_def)
  then have s1: "dropWhile is_space (?s @ c # s) = ?s @ c # s"
    by (cases ?s) auto
  have sign: "?h \<noteq> CHR ''-''" "?h \<noteq> CHR ''+''"
    using h by auto
  have ds: "takeWhile (\<lambda>c. digit_val c < 10) (?s @ c # s) = ?s"
    using assms(2) by (subst takeWhile_append2) (auto dest: dec_string_digit_val)
  show ?thesis
    using sign assms(1) by (simp add: stoi_def Let_def s1 skip_hex_prefix_def ds hd)
qed

theorem proxy_port_of_address:
  assumes "save_proxy_port_val v" "in_int_range (int a)" "CHR '':'' \<notin> set s" "int p \<le> MAX_PORT"
  shows "save_proxy_port (dec_string a @ CHR ''.'' # s @ CHR '':'' # dec_string p) v =
    Inr (v\<lparr>config := (config v)\<lparr>proxy_locations :=
             umap_put (location v) (store_proxy_location_token v, int a) (proxy_locations (config v))\<rparr>,
           save_proxy_port_val := False, location := []\<rparr>)"
proof -
  have "CHR '':'' \<notin> set (dec_string a)" by (rule dec_string_digit) simp
  then have "after_colon ((dec_string a @ CHR ''.'' # s) @ CHR '':'' # dec_string p) = dec_string p"
    using assms(3) by (intro after_colon_address) simp
  moreover have "stoi 10 (dec_string a @ CHR ''.'' # s @ CHR '':'' # dec_string p) = Inr (int a)"
    by (rule stoi_dec_string_prefix) (simp_all add: assms(2) digit_val_def)
  ultimately show ?thesis
    using assms(1,4) by (simp add: save_proxy_port_def IsValidPortNum_def stoi_port)
qed

theorem proxy_port_of_address_witness:
  "save_proxy_port (dec_string 127 @ CHR ''.'' # ''0.0.1'' @ CHR '':'' # dec_string 8080)
     ((new_vars new_config)\<lparr>save_proxy_port_val := True\<rparr>) =
    Inr (((new_vars new_config)\<lparr>save_proxy_port_val := True\<rparr>)
      \<lparr>config := (config ((new_vars new_config)\<lparr>save_proxy_port_val := True\<rparr>))\<lparr>proxy_locations :=
         umap_put (location ((new_vars new_config)\<lparr>save_proxy_port_val := True\<rparr>))
           (store_proxy_location_token ((new_vars new_config)\<lparr>save_proxy_port_val := True\<rparr>), int 127)
           (proxy_locations (config ((new_vars new_config)\<lparr>save_proxy_port_val := True\<rparr>)))\<rparr>,
       save_proxy_port_val := False, location := []\<rparr>)"
  by (rule proxy_port_of_address) (simp_all add: MAX_PORT_def in_int_range_def INT_MIN_def INT_MAX_def)

text \<open>
  A proxy port that is no port number ends the program instead of being reported: a number outside 0 to 65535 raises
  \<open>std::invalid_argument\<close> (the code prints \<open>std::stoi\<close> of the keyword \<open>port\<close>), and a token that is no number, or one that
  does not fit an \<open>int\<close>, makes \<open>IsValidPortNum\<close> end without a return value.
\<close>

lemma stoi_port_keyword: "stoi 10 port_keyword = Inl InvalidArgument"
  by (simp add: stoi_def is_space_def skip_hex_prefix_def digit_val_def)

theorem proxy_port_error:
  assumes "save_proxy_port_val v"
    and "\<forall>n. stoi 10 (after_colon tok) = Inr n \<longrightarrow> n < 0 \<or> MAX_PORT < n"
  shows "save_proxy_port tok v =
    (if is_ok (stoi 10 (after_colon tok)) then Inl InvalidArgument else Inl UndefinedBehaviour)"
  using assms
  by (cases "stoi 10 (after_colon tok)")
    (auto simp: save_proxy_port_def IsValidPortNum_def stoi_port_keyword simp del: One_nat_def)

theorem proxy_port_error_witness:
  "save_proxy_port ''70000'' ((new_vars new_config)\<lparr>save_proxy_port_val := True\<rparr>) =
    (if is_ok (stoi 10 (after_colon ''70000'')) then Inl InvalidArgument else Inl UndefinedBehaviour)"
proof (rule proxy_port_error)
  have "after_colon ''70000'' = ''70000''" by (simp add: after_colon_def find_from_def)
  then show "\<forall>n. stoi 10 (after_colon ''70000'') = Inr n \<longrightarrow> n < 0 \<or> MAX_PORT < n"
    by (simp add: stoi_def is_space_def skip_hex_prefix_def digit_val_def value_of_def MAX_PORT_def)
qed simp

text \<open>
  A file that ends after the keyword \<open>location\<close> is not rejected: the empty last token is unquoted, and
  \<open>std::string::substr\<close> raises \<open>std::out_of_range\<close> out of \<open>Parse\<close>.
\<close>

theorem location_at_end: "parse_config ''location '' new_config = Inl OutOfRange"
proof -
  have "parse_token ''location '' = (TOKEN_TYPE_NORMAL, ''location'', '' '')"
    by (simp add: parse_token_def)
  moreover have "parse_token '' '' = (TOKEN_TYPE_EOF, [], [])" by (simp add: parse_token_def)
  ultimately show ?thesis
    by (simp add: parse_config_def parse_loop.simps [of _ "''location ''"] parse_loop.simps [of _ "'' ''"]
        iteration_step_def save_defs handler_type_token_def location_token_def note_keyword_def
        token_transition_def on_top_def push_token_def Let_def new_vars_def new_config_def unquote_def substr_def)
qed

end
