(* ===== verification/UriPath.thy ===== *)
theory UriPath
  imports CppString
begin

text \<open>
  What the dispatcher and the static handler do to a URI: the loop that replaces every \<open>%20\<close> by a
  space, and the loop that cuts the URI at its last slash until a path is found.

  \<open>replace_spaces\<close> is the first loop, equal to the single pass \<open>decode_spaces\<close>. \<open>cuts\<close> lists the
  paths the second loop tries, from the longest: the URI and every part of it before a slash.
\<close>

subsection \<open>Spaces\<close>

lemma find_from_bound: "find_from pat s i = Some j \<Longrightarrow> j + length pat \<le> length s"
  by (rule find_from_Some_length)

function replace_spaces :: "string \<Rightarrow> nat \<Rightarrow> string" where
  "replace_spaces uri space_index =
     (case find_from ''%20'' uri space_index of
        None \<Rightarrow> uri
      | Some i \<Rightarrow> replace_spaces (replace_at uri i 3 '' '') i)"
  by pat_completeness auto
termination
  by (relation "measure (\<lambda>(uri, i). length uri)")
    (auto simp: replace_at_def dest!: find_from_bound)

declare replace_spaces.simps [simp del]

definition unescape_uri :: "string \<Rightarrow> string" where
  "unescape_uri uri = replace_spaces uri 0"

text \<open>The reference: one pass over the URI.\<close>

fun decode_spaces :: "string \<Rightarrow> string" where
  "decode_spaces [] = []"
| "decode_spaces (c # s) =
     (if prefix ''%20'' (c # s) then SP # decode_spaces (drop 2 s) else c # decode_spaces s)"

lemma decode_spaces_prefix: "prefix ''%20'' s \<Longrightarrow> decode_spaces s = SP # decode_spaces (drop 3 s)"
  by (cases s) (auto simp: numeral_3_eq_3 numeral_2_eq_2)

lemma decode_spaces_step: "\<not> prefix ''%20'' (c # s) \<Longrightarrow> decode_spaces (c # s) = c # decode_spaces s"
  by (auto simp del: Cons_prefix_Cons)

declare decode_spaces.simps(2) [simp del]

lemma decode_spaces_find_aux:
  "find_aux ''%20'' s k = None \<Longrightarrow> decode_spaces s = s"
  "find_aux ''%20'' s k = Some i \<Longrightarrow>
   decode_spaces s = take (i - k) s @ SP # decode_spaces (drop (i - k + 3) s)"
proof (induction s arbitrary: k i)
  case Nil
  { case 1 show ?case by simp }
  { case 2 then show ?case by simp }
next
  case (Cons c s)
  { case 1
    then show ?case using Cons.IH(1) decode_spaces_step by (auto split: if_splits) }
  { case 2
    show ?case
    proof (cases "prefix ''%20'' (c # s)")
      case True
      then show ?thesis using 2 decode_spaces_prefix [OF True] by auto
    next
      case False
      then have *: "find_aux ''%20'' s (Suc k) = Some i"
        using 2 by (simp del: Cons_prefix_Cons)
      then have "Suc k \<le> i" using find_aux_Some by fastforce
      then have "i - k = Suc (i - Suc k)" by simp
      then show ?thesis using Cons.IH(2) [OF *] decode_spaces_step [OF False] by simp
    qed }
qed

lemma replace_spaces_decode:
  "i \<le> length uri \<Longrightarrow> replace_spaces uri i = take i uri @ decode_spaces (drop i uri)"
proof (induction uri i rule: replace_spaces.induct)
  case (1 uri i)
  show ?case
  proof (cases "find_from ''%20'' uri i")
    case None
    then have "decode_spaces (drop i uri) = drop i uri"
      using 1 decode_spaces_find_aux(1) by (simp add: find_from_def)
    then show ?thesis using None by (simp add: replace_spaces.simps [of uri])
  next
    case (Some j)
    let ?uri = "replace_at uri j 3 '' ''"
    have j: "i \<le> j" "j + 3 \<le> length uri"
      using find_from_Some(1) [OF Some] find_from_bound [OF Some] by simp_all
    have dec: "decode_spaces (drop i uri) = take (j - i) (drop i uri) @ SP # decode_spaces (drop (j + 3) uri)"
      using Some "1.prems" decode_spaces_find_aux(2) [of "drop i uri" i j] j by (simp add: find_from_def)
    have space: "decode_spaces (SP # t) = SP # decode_spaces t" for t
      by (rule decode_spaces_step) (simp add: prefix_def)
    have "replace_spaces uri i = replace_spaces ?uri j"
      using Some by (simp add: replace_spaces.simps [of uri])
    also have "\<dots> = take j ?uri @ decode_spaces (drop j ?uri)"
    proof (rule "1.IH" [OF Some])
      show "j \<le> length ?uri" using j by (simp add: replace_at_def)
    qed
    also have "\<dots> = take j uri @ SP # decode_spaces (drop (j + 3) uri)"
      using j by (simp add: replace_at_def space)
    also have "take j uri = take i uri @ take (j - i) (drop i uri)"
      using j(1) by (metis le_add_diff_inverse take_add)
    finally show ?thesis by (simp add: dec)
  qed
qed

lemma unescape_uri_decode: "unescape_uri uri = decode_spaces uri"
  using replace_spaces_decode [of 0 uri] by (simp add: unescape_uri_def)

lemma decode_spaces_plain: "CHR ''%'' \<notin> set s \<Longrightarrow> decode_spaces s = s"
  by (induction s) (auto simp: decode_spaces_step)

text \<open>No escaped space is left.\<close>

lemma decode_spaces_hd:
  assumes "decode_spaces t = x # r" "x \<noteq> SP"
  obtains t' where "t = x # t'" "decode_spaces t' = r"
proof (cases t)
  case (Cons c t')
  have no: "\<not> prefix ''%20'' t"
    using assms decode_spaces_prefix [of t] by (intro notI) simp
  then have "decode_spaces t = c # decode_spaces t'"
    unfolding Cons by (rule decode_spaces_step)
  then show thesis
    using assms(1) Cons by (intro that [of t']) simp_all
qed (use assms in simp)

lemma decode_spaces_none: "find_aux ''%20'' (decode_spaces s) k = None"
proof (induction s arbitrary: k rule: length_induct)
  case (1 s)
  have hd: "\<not> prefix ''%20'' (SP # t)" for t by (simp add: prefix_def)
  show ?case
  proof (cases "prefix ''%20'' s")
    case True
    then have "length (drop 3 s) < length s"
      by (auto simp: prefix_def)
    then show ?thesis
      using 1 decode_spaces_prefix [OF True] hd by simp
  next
    case False
    show ?thesis
    proof (cases s)
      case (Cons c t)
      have "\<not> prefix ''%20'' (c # decode_spaces t)"
      proof
        assume "prefix ''%20'' (c # decode_spaces t)"
        then obtain r where r: "c = CHR ''%''" "decode_spaces t = CHR ''2'' # CHR ''0'' # r"
          by (auto simp: prefix_def)
        obtain t1 where t1: "t = CHR ''2'' # t1" "decode_spaces t1 = CHR ''0'' # r"
          using decode_spaces_hd [OF r(2)] by auto
        obtain t2 where "t1 = CHR ''0'' # t2"
          using decode_spaces_hd [OF t1(2)] by auto
        then show False using False Cons r(1) t1(1) by simp
      qed
      then show ?thesis
        using 1 Cons decode_spaces_step [of c t] False
        by (simp del: Cons_prefix_Cons)
    qed simp
  qed
qed

subsection \<open>Cutting at slashes\<close>

function cuts :: "string \<Rightarrow> string list" where
  "cuts s = s # (case find_last_of CHR ''/'' s of None \<Rightarrow> [] | Some p \<Rightarrow> cuts (take p s))"
  by pat_completeness auto
termination
  by (relation "measure length") (auto dest: find_last_of_Some)

declare cuts.simps [simp del]

lemma cuts_no_slash: "CHR ''/'' \<notin> set s \<Longrightarrow> cuts s = [s]"
  using find_last_of_None [of "CHR ''/''" s] by (simp add: cuts.simps [of s])

lemma cuts_slash: "CHR ''/'' \<notin> set t \<Longrightarrow> cuts (s @ CHR ''/'' # t) = (s @ CHR ''/'' # t) # cuts s"
  using find_last_of_append [of "CHR ''/''" t s] by (simp add: cuts.simps [of "s @ CHR ''/'' # t"])

lemma slash_cases:
  obtains "CHR ''/'' \<notin> set s" | u t where "s = u @ CHR ''/'' # t" "CHR ''/'' \<notin> set t"
  using find_last_of_None find_last_of_split by (metis option.exhaust)

text \<open>A cut is the URI or a part of it before a slash.\<close>

definition path_prefix :: "string \<Rightarrow> string \<Rightarrow> bool" where
  "path_prefix s uri \<longleftrightarrow> uri = s \<or> (\<exists>r. uri = s @ CHR ''/'' # r)"

lemma path_prefix_snoc:
  assumes "CHR ''/'' \<notin> set t"
  shows "path_prefix s (u @ CHR ''/'' # t) \<longleftrightarrow> s = u @ CHR ''/'' # t \<or> path_prefix s u"
proof -
  have "(\<exists>r. u @ CHR ''/'' # t = s @ CHR ''/'' # r) \<longleftrightarrow> path_prefix s u"
  proof
    assume "\<exists>r. u @ CHR ''/'' # t = s @ CHR ''/'' # r"
    then obtain r where "u @ CHR ''/'' # t = s @ CHR ''/'' # r" by blast
    then show "path_prefix s u"
      using assms by (auto simp: path_prefix_def append_eq_append_conv2 Cons_eq_append_conv append_eq_Cons_conv)
  qed (auto simp: path_prefix_def)
  then show ?thesis by (auto simp: path_prefix_def)
qed

lemma set_cuts: "s \<in> set (cuts uri) \<longleftrightarrow> path_prefix s uri"
proof (induction uri rule: length_induct)
  case (1 uri)
  show ?case
  proof (cases rule: slash_cases [of uri])
    case 1
    then show ?thesis by (auto simp: cuts_no_slash path_prefix_def)
  next
    case (2 u t)
    then show ?thesis using "1.IH" by (simp add: cuts_slash path_prefix_snoc)
  qed
qed

lemma cuts_length: "s \<in> set (cuts uri) \<Longrightarrow> length s \<le> length uri"
  by (auto simp: set_cuts path_prefix_def)

text \<open>The cuts get shorter.\<close>

lemma cuts_sorted: "sorted_wrt (\<lambda>s t. length t < length s) (cuts uri)"
proof (induction uri rule: length_induct)
  case (1 uri)
  show ?case
  proof (cases rule: slash_cases [of uri])
    case 1
    then show ?thesis by (simp add: cuts_no_slash)
  next
    case (2 u t)
    then have "sorted_wrt (\<lambda>s t. length t < length s) (cuts u)" using "1.IH" by simp
    then show ?thesis
      using 2 cuts_length [of _ u] by (fastforce simp: cuts_slash)
  qed
qed

lemma find_cuts:
  assumes "find P (cuts uri) = Some s"
  shows "P s" "path_prefix s uri" "\<And>t. P t \<Longrightarrow> path_prefix t uri \<Longrightarrow> length t \<le> length s"
proof -
  obtain i where i: "i < length (cuts uri)" "P (cuts uri ! i)" "s = cuts uri ! i"
      "\<forall>j < i. \<not> P (cuts uri ! j)"
    using assms by (auto simp: find_Some_iff)
  then show "P s" "path_prefix s uri" using set_cuts nth_mem by blast+
  fix t assume t: "P t" "path_prefix t uri"
  then obtain j where j: "j < length (cuts uri)" "cuts uri ! j = t"
    using set_cuts in_set_conv_nth by metis
  then have "i \<le> j" using i(4) t(1) by (meson not_less)
  then show "length t \<le> length s"
    using cuts_sorted [of uri] i(3) j by (cases "i = j") (auto simp: sorted_wrt_iff_nth_less less_imp_le)
qed

lemma find_cuts_None: "find P (cuts uri) = None \<longleftrightarrow> (\<forall>t. path_prefix t uri \<longrightarrow> \<not> P t)"
  using set_cuts by (auto simp: find_None_iff)

end
