(* ===== verification/Handlers.thy ===== *)
theory Handlers
  imports WireFormat UriPath ConfigParser
begin

text \<open>
  The handlers that answer without another server: echo, static files, the 404 page, status,
  health, redirect and the upload form (src/echo_request_handler.cc and so on). The state of each
  is what its \<open>Init\<close> stores; \<open>config.x_.at(location)\<close> raises when there is no such location.

  The static handler reads files: \<open>fs\<close> gives the bytes of the files that can be opened. The
  iteration order of the containers of the configuration is the parameter \<open>it\<close> of the status
  handler.

  All but the redirect handler answer with a framed body: they are interpretations of
  \<open>framed_responder\<close>.
\<close>

definition map_at :: "('k \<times> 'v) list \<Rightarrow> 'k \<Rightarrow> cpp_error + 'v" where
  "map_at m k = (case map_of m k of None \<Rightarrow> Inl OutOfRange | Some v \<Rightarrow> Inr v)"

lemma map_at_ok: "k \<in> fst ` set m \<Longrightarrow> \<exists>v. map_at m k = Inr v"
  by (auto simp: map_at_def split: option.splits dest: weak_map_of_SomeI)

subsection \<open>Echo\<close>

record echo_request_handler =
  echo_path :: string

definition echo_Init :: "string \<Rightarrow> NginxConfig \<Rightarrow> echo_request_handler" where
  "echo_Init location_path cfg = \<lparr>echo_path = location_path\<rparr>"

definition echo_method :: "MethodEnum option \<Rightarrow> string" where
  "echo_method m =
     (case m of
        Some GET \<Rightarrow> ''GET ''
      | Some POST \<Rightarrow> ''POST ''
      | Some DELETE \<Rightarrow> ''DELETE ''
      | _ \<Rightarrow> [])"

text \<open>The part both request printers of the program share, after the method.\<close>

definition request_rest :: "Request \<Rightarrow> string" where
  "request_rest request =
     uri_of request @ '' '' @ version_of request @ crlf
     @ concat (map (\<lambda>(k, v). k @ '': '' @ v @ crlf) (headers_of request)) @ crlf
     @ body_of request"

lemma request_rest_text:
  assumes "version_of request = ''HTTP/'' @ dec_string major @ ''.'' @ dec_string minor"
  shows "(m @ '' '') @ request_rest request =
    head_of_request m (uri_of request) major minor (map header_of_entry (headers_of request)) @ crlf @ body_of request"
proof -
  have "concat (map (\<lambda>(k, v). k @ '': '' @ v @ crlf) es) = concat (map header_line (map header_of_entry es))" for es
    by (induction es) (auto simp: header_line_def header_of_entry_def)
  then show ?thesis by (simp add: request_rest_def assms head_of_request_def request_head_def)
qed

text \<open>The lines of a request in the grammar, after the name of its method, parse to the request.\<close>

lemma request_text_reparsed:
  assumes "token m" "method_of_name junk m = method_of request" "uri_text (uri_of request)"
    and "version_of request = ''HTTP/'' @ dec_string major @ ''.'' @ dec_string minor"
    and "in_int_range (int major)" "in_int_range (int minor)"
    and "map_ok (headers_of request)" "\<forall>kv\<in>set (headers_of request). header_accepted (header_of_entry kv)"
    and "int (length (body_of request)) = sint (declared_length (map header_of_entry (headers_of request)))"
  shows "\<exists>p b. rq_parse (new_request_parser, new_request_builder) ((m @ '' '') @ request_rest request) = (Good, (p, b), [])
    \<and> rq_build_request junk b = request"
proof -
  let ?hs = "map header_of_entry (headers_of request)"
  note request_rest_text [OF assms(4), of m]
  moreover have "assign_headers ?hs = headers_of request" by (rule assign_headers_of_entries [OF assms(7)])
  moreover have "to_string (sint (word_of_nat n :: i32)) = dec_string n" if "in_int_range (int n)" for n
    using sint_of_int_i32 [OF that] by (simp add: to_string_def)
  moreover have hs: "\<forall>h\<in>set ?hs. header_accepted h" using assms(8) by simp
  ultimately show ?thesis
    using rq_parse_printed [OF assms(1,3) hs assms(9), of major minor] assms(2,4)
    by (cases request) (auto simp: rq_build_request_def assms(5,6))
qed

definition echo_build_request_string :: "Request \<Rightarrow> string" where
  "echo_build_request_string request = echo_method (method_of request) @ request_rest request"

definition echo_handle_request :: "echo_request_handler \<Rightarrow> Request \<Rightarrow> Response" where
  "echo_handle_request h request =
     body_response St_ok (echo_build_request_string request) ''text/plain''"

subsection \<open>Static files\<close>

record static_request_handler =
  client_location_path :: string
  server_root_path :: string

definition static_Init :: "string \<Rightarrow> NginxConfig \<Rightarrow> cpp_error + static_request_handler" where
  "static_Init location_path cfg =
     and_then (map_at (static_locations cfg) location_path) (\<lambda>root.
       Inr \<lparr>client_location_path = location_path, server_root_path = root\<rparr>)"

definition mime_mappings :: "(string \<times> string) list" where
  "mime_mappings =
     [(''gif'', ''image/gif''), (''htm'', ''text/html''), (''html'', ''text/html''),
      (''jpg'', ''image/jpeg''), (''jpeg'', ''image/jpeg''), (''png'', ''image/png''),
      (''zip'', ''application/zip''), (''txt'', ''text/plain''), (''pdf'', ''application/pdf'')]"

definition default_bad_request :: Response where
  "default_bad_request = body_response St_not_found (stock_responses St_not_found) ''text/html''"

definition get_mime_type :: "string \<Rightarrow> string" where
  "get_mime_type file_name =
     (case find_last_of CHR ''.'' file_name of
        None \<Rightarrow> ''text/plain''
      | Some i \<Rightarrow>
          (case map_of mime_mappings (drop (i + 1) file_name) of
             Some mime \<Rightarrow> mime
           | None \<Rightarrow> ''text/plain''))"

text \<open>The loop over \<open>client_uri_path\<close>; \<open>sub\<close> is \<open>sub_uri_path\<close>.\<close>

function sub_path :: "string \<Rightarrow> string \<Rightarrow> string \<Rightarrow> string \<Rightarrow> string" where
  "sub_path loc uri client sub =
     (if client = loc then sub
      else case find_last_of CHR ''/'' client of
        None \<Rightarrow> sub
      | Some slash_pos \<Rightarrow> sub_path loc uri (take slash_pos client) (drop slash_pos uri))"
  by pat_completeness auto
termination
  by (relation "measure (\<lambda>(loc, uri, client, sub). length client)") (auto dest: find_last_of_Some)

declare sub_path.simps [simp del]

definition static_file_name :: "static_request_handler \<Rightarrow> string \<Rightarrow> string" where
  "static_file_name h request_uri =
     (let uri = unescape_uri request_uri
      in server_root_path h @ sub_path (client_location_path h) uri uri uri)"

definition static_handle_request ::
  "(string \<Rightarrow> string option) \<Rightarrow> static_request_handler \<Rightarrow> Request \<Rightarrow> Response" where
  "static_handle_request fs h request =
     (case fs (c_str (static_file_name h (uri_of request))) of
        None \<Rightarrow> default_bad_request
      | Some data \<Rightarrow>
          body_response St_ok data (get_mime_type (unescape_uri (uri_of request))))"

text \<open>The path below a location is what follows it; the location itself keeps the whole URI.\<close>

lemma sub_path_below:
  assumes "path_prefix loc client" "client = loc \<longrightarrow> sub = r" "client \<noteq> loc \<longrightarrow> r = drop (length loc) uri"
  shows "sub_path loc uri client sub = r"
  using assms
proof (induction client arbitrary: sub rule: length_induct)
  case (1 client)
  show ?case
  proof (cases "client = loc")
    case True
    then show ?thesis using "1.prems"(2) by (simp add: sub_path.simps [of loc uri loc])
  next
    case False
    then obtain s where "client = loc @ CHR ''/'' # s"
      using "1.prems"(1) by (auto simp: path_prefix_def)
    then have "CHR ''/'' \<in> set client" by simp
    then obtain u t where ut: "client = u @ CHR ''/'' # t" "CHR ''/'' \<notin> set t"
      by (cases rule: slash_cases [of client]) auto
    then have cut: "find_last_of CHR ''/'' client = Some (length u)"
      by (simp add: find_last_of_append)
    have "path_prefix loc u"
      using "1.prems"(1) False ut path_prefix_snoc [of t loc u] by auto
    moreover have "length u < length client" by (simp add: ut)
    ultimately have "sub_path loc uri u (drop (length u) uri) = r"
      using "1.IH" "1.prems"(3) False by auto
    then show ?thesis
      using False cut by (subst sub_path.simps) (simp add: ut)
  qed
qed

lemma static_file_name_below:
  assumes "unescape_uri u = client_location_path h @ CHR ''/'' # rest"
  shows "static_file_name h u = server_root_path h @ CHR ''/'' # rest"
proof -
  have "sub_path (client_location_path h) (unescape_uri u) (unescape_uri u) (unescape_uri u)
      = CHR ''/'' # rest"
    by (rule sub_path_below) (use assms in \<open>auto simp: path_prefix_def\<close>)
  then show ?thesis by (simp add: static_file_name_def)
qed

lemma static_file_name_root:
  assumes "unescape_uri u = client_location_path h"
  shows "static_file_name h u = server_root_path h @ client_location_path h"
  using assms by (simp add: static_file_name_def sub_path.simps)

lemma get_mime_type_value_text: "value_text (get_mime_type f)"
  by (auto simp: get_mime_type_def mime_mappings_def byte_class split: option.splits if_splits
      dest!: map_of_SomeD)

subsection \<open>The 404 page\<close>

record error_404_request_handler =
  error_path :: string

text \<open>\<open>Init\<close> returns another, fresh object, whose path is empty.\<close>

definition error_404_Init :: "string \<Rightarrow> NginxConfig \<Rightarrow> error_404_request_handler" where
  "error_404_Init location_path cfg = \<lparr>error_path = []\<rparr>"

definition error_404_handle_request :: "error_404_request_handler \<Rightarrow> Request \<Rightarrow> Response" where
  "error_404_handle_request h request =
     body_response St_not_found (stock_responses St_not_found) ''text/html''"

subsection \<open>Status\<close>

record status_request_handler =
  status_path :: string
  handler_list :: string
  received_request_list :: string
  request_counter :: i32

definition location_lines :: "string \<Rightarrow> string list \<Rightarrow> string" where
  "location_lines heading locations =
     (if locations = [] then [] else heading @ crlf @ concat (map (\<lambda>l. l @ crlf) locations))"

definition new_status_request_handler ::
  "(string list \<Rightarrow> string list) \<Rightarrow> NginxConfig \<Rightarrow> status_request_handler" where
  "new_status_request_handler it cfg =
     \<lparr>status_path = [],
      handler_list = location_lines ''EchoHandler(s):'' (it (echo_locations cfg))
        @ location_lines ''StaticHandler(s):'' (it (map fst (static_locations cfg)))
        @ location_lines ''ProxyHandler(s):'' (it (map fst (proxy_locations cfg))),
      received_request_list = ''Received request(s):'' @ crlf,
      request_counter = 0\<rparr>"

definition status_Init ::
  "(string list \<Rightarrow> string list) \<Rightarrow> string \<Rightarrow> NginxConfig \<Rightarrow> status_request_handler" where
  "status_Init it location_path cfg = (new_status_request_handler it cfg)\<lparr>status_path := location_path\<rparr>"

definition status_handle_request :: "status_request_handler \<Rightarrow> Request \<Rightarrow> Response" where
  "status_handle_request h request =
     body_response St_ok
       (''Number of requests received: '' @ to_string (sint (request_counter h)) @ crlf
        @ received_request_list h @ handler_list h) ''text/plain''"

definition record_received_request ::
  "string \<Rightarrow> StatusCode \<Rightarrow> status_request_handler \<Rightarrow> status_request_handler" where
  "record_received_request request_uri response_status h =
     h\<lparr>received_request_list := received_request_list h
         @ request_uri @ '' '' @ to_string (status_value response_status) @ crlf,
       request_counter := request_counter h + 1\<rparr>"

text \<open>After a list of requests, the counter is their number and the list has a line for each.\<close>

definition record_line :: "string \<times> StatusCode \<Rightarrow> string" where
  "record_line = (\<lambda>(uri, status). uri @ '' '' @ to_string (status_value status) @ crlf)"

definition record_all :: "(string \<times> StatusCode) list \<Rightarrow> status_request_handler \<Rightarrow> status_request_handler" where
  "record_all rs h = fold (\<lambda>(uri, status). record_received_request uri status) rs h"

lemma record_all_fields:
  "received_request_list (record_all rs h) = received_request_list h @ concat (map record_line rs)"
  "request_counter (record_all rs h) = request_counter h + word_of_nat (length rs)"
  "handler_list (record_all rs h) = handler_list h"
  unfolding record_all_def
  by (induction rs arbitrary: h)
    (auto simp: record_received_request_def record_line_def algebra_simps)

subsection \<open>Health, redirect, upload form\<close>

record health_request_handler =
  health_path :: string

definition health_Init :: "string \<Rightarrow> NginxConfig \<Rightarrow> health_request_handler" where
  "health_Init location_path cfg = \<lparr>health_path = []\<rparr>"

definition health_handle_request :: "health_request_handler \<Rightarrow> Request \<Rightarrow> Response" where
  "health_handle_request h request = body_response St_ok ''OK'' ''text/plain''"

record redirect_request_handler =
  redirect_server_url :: string

definition redirect_Init :: "string \<Rightarrow> NginxConfig \<Rightarrow> cpp_error + redirect_request_handler" where
  "redirect_Init location_path cfg =
     and_then (map_at (redirect_locations cfg) location_path) (\<lambda>url.
       Inr \<lparr>redirect_server_url = url\<rparr>)"

definition redirect_handle_request :: "redirect_request_handler \<Rightarrow> Request \<Rightarrow> Response" where
  "redirect_handle_request h request =
     set_header ''Location'' (redirect_server_url h) (new_response St_moved_temporarily [])"

record upload_form_request_handler =
  form_html :: string

definition upload_form_Init :: "string \<Rightarrow> NginxConfig \<Rightarrow> upload_form_request_handler" where
  "upload_form_Init location_path cfg = \<lparr>form_html =
     ''<!DOCTYPE html>'' @ [LF] @
     ''<html>'' @ [LF] @
     ''    <head>'' @ [LF] @
     ''        <meta charset='' @ [SQ] @ ''utf-8'' @ [SQ] @ ''>'' @ [LF] @
     ''        <title>Blog Upload Form</title>'' @ [LF] @
     ''    </head>'' @ [LF] @
     ''    <body>'' @ [LF] @
     ''        <form action='' @ [SQ] @ ''/blog'' @ [SQ] @ '' method='' @ [SQ] @ ''POST'' @ [SQ] @ ''>'' @ [LF] @
     ''        <div>'' @ [LF] @
     ''            <label for='' @ [SQ] @ ''submissiontitle'' @ [SQ] @ ''>Title</label>'' @ [LF] @
     ''            <input name='' @ [SQ] @ ''submissiontitle'' @ [SQ] @ '' id='' @ [SQ] @ ''submissiontitle'' @ [SQ]
       @ '' placeholder='' @ [SQ] @ ''Blog Title'' @ [SQ] @ ''>'' @ [LF] @
     ''        </div>'' @ [LF] @
     ''        <div>'' @ [LF] @
     ''            <label for='' @ [SQ] @ ''submissionbody'' @ [SQ] @ ''>Body</label>'' @ [LF] @
     ''            <textarea name='' @ [SQ] @ ''submissionbody'' @ [SQ] @ '' id='' @ [SQ] @ ''submissionbody'' @ [SQ]
       @ '' placeholder='' @ [SQ] @ ''Blog Body Text'' @ [SQ] @ ''></textarea>'' @ [LF] @
     ''        </div>'' @ [LF] @
     ''        <div>'' @ [LF] @
     ''            <button>Submit</button>'' @ [LF] @
     ''        </div>'' @ [LF] @
     ''        </form>'' @ [LF] @
     ''    </body>'' @ [LF] @
     ''</html>'' @ [LF]\<rparr>"

definition upload_form_handle_request :: "upload_form_request_handler \<Rightarrow> Request \<Rightarrow> Response" where
  "upload_form_handle_request h request = body_response St_ok (form_html h) ''text/html''"

subsection \<open>What they promise\<close>

lemmas framed_body = framed_body_response unchunked_body_response byte_class

interpretation echo: framed_responder "\<lambda>_. True" "\<lambda>(h, request). echo_handle_request h request"
  by unfold_locales (auto simp: echo_handle_request_def framed_body)

interpretation static: framed_responder "\<lambda>_. True" "\<lambda>(fs, h, request). static_handle_request fs h request"
  by unfold_locales
    (auto simp: static_handle_request_def default_bad_request_def framed_body get_mime_type_value_text
      split: option.splits)

interpretation not_found: framed_responder "\<lambda>_. True" "\<lambda>(h, request). error_404_handle_request h request"
  by unfold_locales (auto simp: error_404_handle_request_def framed_body)

interpretation status: framed_responder "\<lambda>_. True" "\<lambda>(h, request). status_handle_request h request"
  by unfold_locales (auto simp: status_handle_request_def framed_body)

interpretation health: framed_responder "\<lambda>_. True" "\<lambda>(h, request). health_handle_request h request"
  by unfold_locales (auto simp: health_handle_request_def framed_body)

interpretation upload_form: framed_responder "\<lambda>_. True" "\<lambda>(h, request). upload_form_handle_request h request"
  by unfold_locales (auto simp: upload_form_handle_request_def framed_body)

end
