(* ===== verification/HandlerProperties.thy ===== *)
theory HandlerProperties
  imports Handlers
begin

text \<open>
  The properties of the request handlers that keep no data of the users: the file a static URI names, the echo of a
  request, the status page, and the framing of every response they give.
\<close>

subsection \<open>Escaped spaces\<close>

text \<open>
  The loop of the dispatcher and of the static handler that replaces \<open>%20\<close> in place, searching on from the place of the last
  replacement, computes the decoding of the URI in one pass from left to right.
\<close>

theorem spaces_one_pass: "unescape_uri uri = decode_spaces uri"
  by (rule unescape_uri_decode)

text \<open>The loop ends, and leaves no \<open>%20\<close>: it would change nothing if it ran again.\<close>

theorem spaces_done: "find_from ''%20'' (unescape_uri uri) 0 = None
    \<and> unescape_uri (unescape_uri uri) = unescape_uri uri"
proof -
  have none: "find_from ''%20'' (unescape_uri uri) 0 = None"
    by (simp add: find_from_def unescape_uri_decode decode_spaces_none)
  then have "unescape_uri (unescape_uri uri) = unescape_uri uri"
    by (simp add: unescape_uri_def [of "unescape_uri uri"] replace_spaces.simps [of "unescape_uri uri"])
  with none show ?thesis by simp
qed

subsection \<open>Static files\<close>

text \<open>
  A URI below the location of a static handler, once its spaces are decoded, names the file at the same place below
  the root: the handler opens the root followed by what follows the location, and answers with the content of that file
  and the type its extension has, or with the 404 page when there is no such file.
\<close>

theorem static_below_location:
  assumes "unescape_uri (uri_of request) = client_location_path h @ CHR ''/'' # rest"
  shows "static_handle_request fs h request =
    (case fs (c_str (server_root_path h @ CHR ''/'' # rest)) of
       None \<Rightarrow> body_response St_not_found (stock_responses St_not_found) ''text/html''
     | Some content \<Rightarrow> body_response St_ok content
         (get_mime_type (client_location_path h @ CHR ''/'' # rest)))"
  by (simp add: static_handle_request_def static_file_name_below [OF assms] assms default_bad_request_def
      split: option.split)

abbreviation example_static :: static_request_handler where
  "example_static \<equiv> \<lparr>client_location_path = ''/static'', server_root_path = ''/files''\<rparr>"
abbreviation example_get :: "string \<Rightarrow> Request" where
  "example_get u \<equiv> \<lparr>method_of = Some GET, uri_of = u, version_of = ''HTTP/1.1'', headers_of = [], body_of = []\<rparr>"

lemma unescape_a_txt: "unescape_uri ''/static/a%20b.txt'' = ''/static/a b.txt''"
  by (simp add: unescape_uri_decode decode_spaces.simps)

theorem static_below_location_witness:
  "static_handle_request [''/files/a b.txt'' \<mapsto> ''hello''] example_static (example_get ''/static/a%20b.txt'') =
    (case [''/files/a b.txt'' \<mapsto> ''hello''] (c_str (server_root_path example_static @ CHR ''/'' # ''a b.txt'')) of
       None \<Rightarrow> body_response St_not_found (stock_responses St_not_found) ''text/html''
     | Some content \<Rightarrow> body_response St_ok content
         (get_mime_type (client_location_path example_static @ CHR ''/'' # ''a b.txt'')))"
  by (rule static_below_location) (simp add: unescape_a_txt)

text \<open>
  A URI that is exactly the location is looked up as the root followed by the whole location, not as the root: the
  loop that strips the URI never runs, so nothing is cut off.
\<close>

theorem static_location_itself:
  assumes "unescape_uri (uri_of request) = client_location_path h"
  shows "static_handle_request fs h request =
    (case fs (c_str (server_root_path h @ client_location_path h)) of
       None \<Rightarrow> body_response St_not_found (stock_responses St_not_found) ''text/html''
     | Some content \<Rightarrow> body_response St_ok content (get_mime_type (client_location_path h)))"
  by (simp add: static_handle_request_def static_file_name_root [OF assms] assms default_bad_request_def
      split: option.split)

theorem static_location_itself_witness:
  "static_handle_request [''/files/static'' \<mapsto> ''index''] example_static (example_get ''/static'') =
    (case [''/files/static'' \<mapsto> ''index''] (c_str (server_root_path example_static @ client_location_path example_static)) of
       None \<Rightarrow> body_response St_not_found (stock_responses St_not_found) ''text/html''
     | Some content \<Rightarrow> body_response St_ok content (get_mime_type (client_location_path example_static)))"
  by (rule static_location_itself) (simp add: unescape_uri_decode decode_spaces_plain)

subsection \<open>Echo\<close>

text \<open>
  The body of an echo response is the request itself: the request parser accepts it, and \<open>build_request\<close> gives back the
  request that was echoed. This holds for the three methods the handler prints, a URI and headers in the grammar, and a
  body of the declared length.
\<close>

theorem echo_reparsed:
  assumes "method_of request \<in> {Some GET, Some POST, Some DELETE}" "uri_text (uri_of request)"
    and "version_of request = ''HTTP/'' @ dec_string major @ ''.'' @ dec_string minor"
    and "in_int_range (int major)" "in_int_range (int minor)"
    and "map_ok (headers_of request)" "\<forall>kv\<in>set (headers_of request). header_accepted (header_of_entry kv)"
    and "int (length (body_of request)) = sint (declared_length (map header_of_entry (headers_of request)))"
  shows "\<exists>p b. rq_parse (new_request_parser, new_request_builder)
      (rbody_of (echo_handle_request h request)) = (Good, (p, b), []) \<and> rq_build_request junk b = request"
proof -
  define m where "m = (case method_of request of Some GET \<Rightarrow> ''GET'' | Some POST \<Rightarrow> ''POST'' | _ \<Rightarrow> ''DELETE'')"
  have m: "token m" "method_of_name junk m = method_of request" "echo_method (method_of request) = m @ '' ''"
    using assms(1) by (auto simp: m_def token_method method_of_name_def echo_method_def)
  then have "rbody_of (echo_handle_request h request) = (m @ '' '') @ request_rest request"
    by (simp add: echo_handle_request_def echo_build_request_string_def)
  with request_text_reparsed [OF m(1,2) assms(2-8)] show ?thesis by simp
qed

theorem echo_reparsed_witness:
  "\<exists>p b. rq_parse (new_request_parser, new_request_builder)
      (rbody_of (echo_handle_request \<lparr>echo_path = ''/echo''\<rparr>
         \<lparr>method_of = Some GET, uri_of = ''/echo'', version_of = ''HTTP/'' @ dec_string 1 @ ''.'' @ dec_string 1,
          headers_of = [], body_of = []\<rparr>)) = (Good, (p, b), [])
    \<and> rq_build_request None b =
        \<lparr>method_of = Some GET, uri_of = ''/echo'', version_of = ''HTTP/'' @ dec_string 1 @ ''.'' @ dec_string 1,
         headers_of = [], body_of = []\<rparr>"
  by (rule echo_reparsed [where major = 1 and minor = 1])
    (simp_all add: uri_text_def text_char_def is_ctl_def char_int_def in_int_range_def INT_MIN_def INT_MAX_def)

subsection \<open>Status\<close>

text \<open>
  The status page after any sequence of recorded requests: the number of requests, one line per request in the order they
  came, with its URI and its status, and the locations of the echo, static and proxy handlers. The count is the number of
  requests modulo \<open>2 ^ 32\<close>, read as a signed number.
\<close>

theorem status_page:
  "rbody_of (status_handle_request (record_all rs (status_Init it location_path cfg)) request) =
    ''Number of requests received: '' @ to_string (sint (word_of_nat (length rs) :: i32)) @ crlf
    @ (''Received request(s):'' @ crlf @ concat (map record_line rs))
    @ location_lines ''EchoHandler(s):'' (it (echo_locations cfg))
    @ location_lines ''StaticHandler(s):'' (it (map fst (static_locations cfg)))
    @ location_lines ''ProxyHandler(s):'' (it (map fst (proxy_locations cfg)))"
  by (simp add: status_handle_request_def record_all_fields status_Init_def new_status_request_handler_def)

subsection \<open>Framing\<close>

text \<open>
  C32. Every response of the echo, static, 404, status, health and upload form handlers carries the length of its body, so a
  client that reads with the program's own response parser gets it back whole, whatever the parser's counter held before.
\<close>

definition handler_response :: "(string \<Rightarrow> string option) \<Rightarrow> Request \<Rightarrow> Response \<Rightarrow> bool" where
  "handler_response fs request r \<longleftrightarrow>
     (\<exists>h. r = echo_handle_request h request) \<or> (\<exists>h. r = static_handle_request fs h request)
     \<or> (\<exists>h. r = error_404_handle_request h request) \<or> (\<exists>h. r = status_handle_request h request)
     \<or> (\<exists>h. r = health_handle_request h request) \<or> (\<exists>h. r = upload_form_handle_request h request)"

theorem handlers_framed:
  assumes "handler_response fs request r" "int (length (rbody_of r)) \<le> INT_MAX"
  shows "\<exists>st b. rs_parse (new_response_parser, new_response_builder junk) (wire r) = (Good, (st, b), [])
    \<and> rs_build_response b = r\<lparr>code_of := wire_status (code_of r)\<rparr>"
proof -
  have "framed r \<and> unchunked r"
    using assms(1) echo.respond_framed [of "(_, request)"] static.respond_framed [of "(fs, _, request)"]
      not_found.respond_framed [of "(_, request)"] status.respond_framed [of "(_, request)"]
      health.respond_framed [of "(_, request)"] upload_form.respond_framed [of "(_, request)"]
    by (auto simp: handler_response_def)
  then show ?thesis using wire_read_back [of r junk] assms(2) by blast
qed

lemma health_example: "handler_response fs request (health_handle_request \<lparr>health_path = []\<rparr> request)"
  by (auto simp: handler_response_def)

theorem handlers_framed_witness:
  "\<exists>st b. rs_parse (new_response_parser, new_response_builder 3)
      (wire (health_handle_request \<lparr>health_path = []\<rparr> (example_get ''/health''))) = (Good, (st, b), [])
    \<and> rs_build_response b = (health_handle_request \<lparr>health_path = []\<rparr> (example_get ''/health''))
        \<lparr>code_of := wire_status (code_of (health_handle_request \<lparr>health_path = []\<rparr> (example_get ''/health'')))\<rparr>"
  by (rule handlers_framed [OF health_example [of "\<lambda>_. None"]]) (simp add: health_handle_request_def INT_MAX_def)

end
