(* ===== verification/BlogDatabase.thy ===== *)
theory BlogDatabase
  imports StdMap
begin

text \<open>
  Blog posts and where they are kept: \<open>Blog\<close> (include/blog.h), the abstract class \<open>database\<close>
  (include/database.h) and its three implementations.

  \<^item> The locale \<open>database\<close> is the contract of the abstract class: which posts can be read after an
    insertion, and what the list of all posts holds.
  \<^item> \<open>mock_database\<close> (src/mock_database.cc) is a vector of posts.
  \<^item> \<open>blog_database\<close> (src/blog_database.cc) works on a PostgreSQL connection. libpqxx is a
    parameter, the record \<open>pq_api\<close>: the calls the code makes, failing with a message. The locale
    \<open>posts_connection\<close> is what the code relies on: the three prepared statements work on the
    table of database/create_posts_table.sql and the connection stays up. \<open>posts_api\<close> is a
    connection to that table.
  \<^item> \<open>blog_bigtable\<close> (bigtable/src/blog_bigtable.cc) works on a table of the Cloud Bigtable client
    library, the record \<open>bigtable_api\<close>.

  The mutex serialises the operations of one object, so each is one step.
\<close>

subsection \<open>Posts and the contract\<close>

record Blog =
  postid :: int
  title :: string
  body :: string

definition sentinel :: Blog where
  "sentinel = \<lparr>postid = - 1, title = [], body = []\<rparr>"

locale database =
  fixes inv :: "'d \<Rightarrow> bool"
    and room :: "'d \<Rightarrow> bool"
    and insert_blog :: "'d \<Rightarrow> string \<Rightarrow> string \<Rightarrow> int \<times> 'd"
    and get_blog :: "'d \<Rightarrow> int \<Rightarrow> Blog"
    and get_all_blogs :: "'d \<Rightarrow> Blog list"
  assumes insert_inv: "inv db \<Longrightarrow> room db \<Longrightarrow> inv (snd (insert_blog db t b))"
    and insert_fails: "inv db \<Longrightarrow> room db \<Longrightarrow> insert_blog db t b = (i, db') \<Longrightarrow> i < 0 \<Longrightarrow>
      i = - 1 \<and> get_blog db' = get_blog db \<and> get_all_blogs db' = get_all_blogs db"
    and insert_fresh: "inv db \<Longrightarrow> room db \<Longrightarrow> insert_blog db t b = (i, db') \<Longrightarrow> 0 \<le> i \<Longrightarrow>
      get_blog db i = sentinel"
    and insert_int: "inv db \<Longrightarrow> room db \<Longrightarrow> in_int_range (fst (insert_blog db t b))"
    and insert_get: "inv db \<Longrightarrow> room db \<Longrightarrow> insert_blog db t b = (i, db') \<Longrightarrow> 0 \<le> i \<Longrightarrow>
      get_blog db' j = (if j = i then \<lparr>postid = i, title = t, body = b\<rparr> else get_blog db j)"
    and get_id: "inv db \<Longrightarrow> get_blog db j = sentinel \<or> (postid (get_blog db j) = j \<and> 0 \<le> j)"
    and all_get: "inv db \<Longrightarrow>
      p \<in> set (get_all_blogs db) \<longleftrightarrow> 0 \<le> postid p \<and> get_blog db (postid p) = p"
    and all_distinct: "inv db \<Longrightarrow> distinct (map postid (get_all_blogs db))"
begin

text \<open>What the handlers rely on.\<close>

lemma get_absent: "inv db \<Longrightarrow> j < 0 \<Longrightarrow> get_blog db j = sentinel"
  using get_id [of db j] by auto

lemma insert_all:
  assumes "inv db" "room db" "insert_blog db t b = (i, db')" "0 \<le> i"
  shows "set (get_all_blogs db') = insert \<lparr>postid = i, title = t, body = b\<rparr> (set (get_all_blogs db))"
proof -
  have inv': "inv db'" using insert_inv [OF assms(1,2), of t b] assms(3) by simp
  have fresh: "get_blog db i = sentinel" by (rule insert_fresh [OF assms])
  have "p \<in> set (get_all_blogs db') \<longleftrightarrow>
      p = \<lparr>postid = i, title = t, body = b\<rparr> \<or> p \<in> set (get_all_blogs db)" for p
    using assms(4) fresh
    by (auto simp: all_get [OF inv'] all_get [OF assms(1)] insert_get [OF assms] sentinel_def
        split: if_splits)
  then show ?thesis by blast
qed

lemma insert_keeps:
  assumes "inv db" "room db" "p \<in> set (get_all_blogs db)"
  shows "p \<in> set (get_all_blogs (snd (insert_blog db t b)))"
proof (cases "0 \<le> fst (insert_blog db t b)")
  case True
  then show ?thesis
    using insert_all [OF assms(1,2), of t b] assms(3) by (cases "insert_blog db t b") auto
next
  case False
  then show ?thesis
    using insert_fails [OF assms(1,2), of t b] assms(3) by (cases "insert_blog db t b") auto
qed

lemma get_from_all: "inv db \<Longrightarrow> get_blog db j \<noteq> sentinel \<Longrightarrow> get_blog db j \<in> set (get_all_blogs db)"
  using get_id [of db j] all_get [of db "get_blog db j"] by auto

end

subsection \<open>\<open>mock_database\<close>\<close>

text \<open>
  \<open>postid\<close> is an \<open>int\<close>: the size of the vector plus one is converted to it. In \<open>get_blog\<close> the
  index \<open>postid - 1\<close> is converted to \<open>size_t\<close>, so a negative index is out of range.
\<close>

definition to_i32 :: "nat \<Rightarrow> int" where
  "to_i32 n = sint (of_nat n :: i32)"

definition mock_insert_blog :: "Blog list \<Rightarrow> string \<Rightarrow> string \<Rightarrow> int \<times> Blog list" where
  "mock_insert_blog db t b =
     (let i = to_i32 (length db + 1) in (i, db @ [\<lparr>postid = i, title = t, body = b\<rparr>]))"

definition mock_get_blog :: "Blog list \<Rightarrow> int \<Rightarrow> Blog" where
  "mock_get_blog db i =
     (let k = i - 1 in if 0 \<le> k \<and> nat k < length db then db ! nat k else sentinel)"

definition mock_get_all_blogs :: "Blog list \<Rightarrow> Blog list" where
  "mock_get_all_blogs db = db"

definition mock_ok :: "Blog list \<Rightarrow> bool" where
  "mock_ok db \<longleftrightarrow> length db < 2 ^ 31 \<and> map postid db = map int [1..<Suc (length db)]"

definition mock_room :: "Blog list \<Rightarrow> bool" where
  "mock_room db \<longleftrightarrow> length db + 1 < 2 ^ 31"

lemma to_i32: "n < 2 ^ 31 \<Longrightarrow> to_i32 n = int n"
proof -
  assume "n < 2 ^ 31"
  then have "in_int_range (int n)"
    by (simp add: in_int_range_def INT_MIN_def INT_MAX_def)
  then show ?thesis
    using sint_of_int_i32 [of "int n"] by (simp add: to_i32_def)
qed

lemma mock_ok_nth: "mock_ok db \<Longrightarrow> k < length db \<Longrightarrow> postid (db ! k) = int k + 1"
proof -
  assume ok: "mock_ok db" "k < length db"
  then have "map postid db ! k = map int [1..<Suc (length db)] ! k"
    unfolding mock_ok_def by simp
  then show ?thesis using ok(2) by (simp del: upt_Suc)
qed

lemma mock_member:
  assumes "mock_ok db"
  shows "p \<in> set db \<longleftrightarrow> 0 \<le> postid p \<and> mock_get_blog db (postid p) = p"
proof
  assume "p \<in> set db"
  then obtain k where "k < length db" "db ! k = p" by (auto simp: in_set_conv_nth)
  then show "0 \<le> postid p \<and> mock_get_blog db (postid p) = p"
    using mock_ok_nth [OF assms, of k] by (auto simp: mock_get_blog_def)
next
  assume p: "0 \<le> postid p \<and> mock_get_blog db (postid p) = p"
  show "p \<in> set db"
  proof (cases "0 \<le> postid p - 1 \<and> nat (postid p - 1) < length db")
    case True
    then have "db ! nat (postid p - 1) = p" using p by (simp add: mock_get_blog_def)
    then show ?thesis using True by (metis nth_mem)
  next
    case False
    then have "p = sentinel" using p by (auto simp: mock_get_blog_def Let_def split: if_splits)
    then show ?thesis using p by (simp add: sentinel_def)
  qed
qed

lemma mock_ok_empty: "mock_ok []"
  by (simp add: mock_ok_def)

interpretation mock: database mock_ok mock_room mock_insert_blog mock_get_blog mock_get_all_blogs
proof
  fix db t b i db' j p
  assume ok: "mock_ok db"
  show "mock_get_blog db j = sentinel \<or> postid (mock_get_blog db j) = j \<and> 0 \<le> j"
    using mock_ok_nth [OF ok] by (auto simp: mock_get_blog_def Let_def)
  show "distinct (map postid (mock_get_all_blogs db))"
    using ok by (simp add: mock_get_all_blogs_def mock_ok_def distinct_map inj_on_def del: upt_Suc)
  show "(p \<in> set (mock_get_all_blogs db)) = (0 \<le> postid p \<and> mock_get_blog db (postid p) = p)"
    unfolding mock_get_all_blogs_def by (rule mock_member [OF ok])
  assume room: "mock_room db"
  then have i: "to_i32 (length db + 1) = int (length db) + 1"
    by (simp add: mock_room_def to_i32)
  show "mock_ok (snd (mock_insert_blog db t b))"
    using ok room i by (simp add: mock_insert_blog_def mock_ok_def mock_room_def Let_def)
  show "in_int_range (fst (mock_insert_blog db t b))"
    using i room by (simp add: mock_insert_blog_def mock_room_def Let_def in_int_range_def INT_MIN_def INT_MAX_def)
  assume ins: "mock_insert_blog db t b = (i, db')"
  then have db': "i = int (length db) + 1" "db' = db @ [\<lparr>postid = i, title = t, body = b\<rparr>]"
    using i by (auto simp: mock_insert_blog_def Let_def)
  show "i < 0 \<Longrightarrow> i = - 1 \<and> mock_get_blog db' = mock_get_blog db \<and> mock_get_all_blogs db' = mock_get_all_blogs db"
    using db' by simp
  show "0 \<le> i \<Longrightarrow> mock_get_blog db i = sentinel"
    using db' by (simp add: mock_get_blog_def)
  show "0 \<le> i \<Longrightarrow> mock_get_blog db' j =
      (if j = i then \<lparr>postid = i, title = t, body = b\<rparr> else mock_get_blog db j)"
    using db' by (auto simp: mock_get_blog_def nth_append Let_def)
qed

subsection \<open>\<open>blog_database\<close>\<close>

text \<open>
  The library calls: running a prepared statement in a transaction, ending the transaction, and
  running one outside of a transaction. A result is a list of rows of fields; a field without a
  value is \<open>None\<close>. A failure is an exception with a message.
\<close>

type_synonym pq_result = "string option list list"

record 'c pq_api =
  exec_work :: "'c \<Rightarrow> string \<Rightarrow> string list \<Rightarrow> (string + pq_result) \<times> 'c"
  commit :: "'c \<Rightarrow> (string + unit) \<times> 'c"
  abort :: "'c \<Rightarrow> 'c"
  exec_read :: "'c \<Rightarrow> string \<Rightarrow> string list \<Rightarrow> string + pq_result"
  as_int :: "string option \<Rightarrow> string + int"
  as_string :: "string option \<Rightarrow> string + string"

definition at :: "'a list \<Rightarrow> nat \<Rightarrow> string + 'a" where
  "at xs i = (if i < length xs then Inr (xs ! i) else Inl ''out of range'')"

text \<open>An exception between the statement and the end of the transaction aborts it.\<close>

definition blog_insert_blog :: "'c pq_api \<Rightarrow> 'c \<Rightarrow> string \<Rightarrow> string \<Rightarrow> int \<times> 'c" where
  "blog_insert_blog api c t b =
     (case exec_work api c ''insert_blog'' [t, b] of (result, c') \<Rightarrow>
        case and_then result (\<lambda>R. and_then (at R 0) (\<lambda>row. and_then (at row 0) (as_int api))) of
          Inl e \<Rightarrow> (- 1, abort api c')
        | Inr i \<Rightarrow>
            (case commit api c' of
               (Inl e, c'') \<Rightarrow> (- 1, c'')
             | (Inr u, c'') \<Rightarrow> (i, c'')))"

definition blog_of_row :: "'c pq_api \<Rightarrow> string option list \<Rightarrow> string + Blog" where
  "blog_of_row api row =
     and_then (at row 0) (\<lambda>f0. and_then (as_int api f0) (\<lambda>i.
     and_then (at row 1) (\<lambda>f1. and_then (as_string api f1) (\<lambda>t.
     and_then (at row 2) (\<lambda>f2. and_then (as_string api f2) (\<lambda>b.
     Inr \<lparr>postid = i, title = t, body = b\<rparr>))))))"

definition blog_get_blog :: "'c pq_api \<Rightarrow> 'c \<Rightarrow> int \<Rightarrow> Blog" where
  "blog_get_blog api c i =
     (case and_then (exec_read api c ''get_blog'' [to_string i]) (\<lambda>R.
           and_then (at R 0) (blog_of_row api)) of
        Inl e \<Rightarrow> sentinel
      | Inr p \<Rightarrow> p)"

text \<open>The posts pushed before an exception stay in the result.\<close>

fun blogs_of_rows :: "'c pq_api \<Rightarrow> pq_result \<Rightarrow> Blog list" where
  "blogs_of_rows api [] = []"
| "blogs_of_rows api (row # rows) =
     (case blog_of_row api row of
        Inl e \<Rightarrow> []
      | Inr p \<Rightarrow> p # blogs_of_rows api rows)"

definition blog_get_all_blogs :: "'c pq_api \<Rightarrow> 'c \<Rightarrow> Blog list" where
  "blog_get_all_blogs api c =
     (case exec_read api c ''get_all_blogs'' [] of Inl e \<Rightarrow> [] | Inr R \<Rightarrow> blogs_of_rows api R)"

text \<open>
  What a connection to the table \<open>posts\<close> does: \<open>table\<close> gives the rows. The statement \<open>insert_blog\<close>
  takes a new number from the sequence of the column and returns it; the row is there once the
  transaction is committed. \<open>get_blog\<close> selects by the key, \<open>get_all_blogs\<close> selects all rows, in
  an order the database chooses.
\<close>

definition row_of :: "Blog \<Rightarrow> string option list" where
  "row_of p = [Some (to_string (postid p)), Some (title p), Some (body p)]"

definition serial :: "int \<Rightarrow> bool" where
  "serial i \<longleftrightarrow> 1 \<le> i \<and> i \<le> INT_MAX"

locale posts_connection =
  fixes api :: "'c pq_api"
    and table :: "'c \<Rightarrow> Blog list"
    and conn_ok :: "'c \<Rightarrow> bool"
  assumes keys: "conn_ok c \<Longrightarrow> distinct (map postid (table c)) \<and> (\<forall>p \<in> set (table c). serial (postid p))"
    and insert_row: "conn_ok c \<Longrightarrow> exec_work api c ''insert_blog'' [t, b] = (Inr R, c') \<Longrightarrow>
      \<exists>i. R = [[Some (to_string i)]] \<and> serial i \<and> i \<notin> postid ` set (table c) \<and>
        (case commit api c' of
           (Inl e, c'') \<Rightarrow> conn_ok c'' \<and> table c'' = table c
         | (Inr u, c'') \<Rightarrow> conn_ok c'' \<and> table c'' = table c @ [\<lparr>postid = i, title = t, body = b\<rparr>])"
    and insert_error: "conn_ok c \<Longrightarrow> exec_work api c ''insert_blog'' [t, b] = (Inl e, c') \<Longrightarrow>
      conn_ok (abort api c') \<and> table (abort api c') = table c"
    and read_one: "conn_ok c \<Longrightarrow> exec_read api c ''get_blog'' [to_string i] =
      Inr (map row_of (filter (\<lambda>p. postid p = i) (table c)))"
    and read_all: "conn_ok c \<Longrightarrow> exec_read api c ''get_all_blogs'' [] = Inr (map row_of (table c))"
    and as_int_to_string: "serial i \<Longrightarrow> as_int api (Some (to_string i)) = Inr i"
    and as_string_Some: "as_string api (Some s) = Inr s"
begin

lemma find_filter: "find P xs = Some p \<Longrightarrow> \<exists>rest. filter P xs = p # rest"
  by (induction xs) (auto split: if_splits)

lemma blog_of_row_row_of: "serial (postid p) \<Longrightarrow> blog_of_row api (row_of p) = Inr p"
  by (simp add: blog_of_row_def row_of_def at_def as_int_to_string as_string_Some)

lemma blogs_of_rows_row_of:
  "\<forall>p \<in> set ps. serial (postid p) \<Longrightarrow> blogs_of_rows api (map row_of ps) = ps"
  by (induction ps) (simp_all add: blog_of_row_row_of)

lemma get_all_table: "conn_ok c \<Longrightarrow> blog_get_all_blogs api c = table c"
  using keys [of c] by (simp add: blog_get_all_blogs_def read_all blogs_of_rows_row_of)

lemma get_table:
  assumes "conn_ok c"
  shows "blog_get_blog api c i = (case find (\<lambda>p. postid p = i) (table c) of None \<Rightarrow> sentinel | Some p \<Rightarrow> p)"
proof (cases "find (\<lambda>p. postid p = i) (table c)")
  case None
  then have "filter (\<lambda>p. postid p = i) (table c) = []"
    by (simp add: find_None_iff filter_empty_conv)
  then show ?thesis
    using None by (simp add: blog_get_blog_def read_one [OF assms] at_def)
next
  case (Some p)
  then have p: "p \<in> set (table c)" "postid p = i"
    by (auto simp: find_Some_iff)
  obtain rest where "filter (\<lambda>p. postid p = i) (table c) = p # rest"
    using find_filter [OF Some] by blast
  moreover have "serial (postid p)"
    using keys [OF assms] p(1) by blast
  ultimately show ?thesis
    using Some by (simp add: blog_get_blog_def read_one [OF assms] at_def blog_of_row_row_of)
qed

lemma insert_cases:
  assumes "conn_ok c" "blog_insert_blog api c t b = (i, c')"
  shows "conn_ok c' \<and>
    ((i = - 1 \<and> table c' = table c) \<or>
     (serial i \<and> i \<notin> postid ` set (table c) \<and>
      table c' = table c @ [\<lparr>postid = i, title = t, body = b\<rparr>]))"
proof (cases "exec_work api c ''insert_blog'' [t, b]")
  case (Pair r c1)
  show ?thesis
  proof (cases r)
    case (Inl e)
    then show ?thesis
      using assms(2) Pair insert_error [OF assms(1), of t b e c1] by (auto simp: blog_insert_blog_def)
  next
    case (Inr R)
    then show ?thesis
      using assms(2) Pair insert_row [OF assms(1), of t b R c1]
      by (auto simp: blog_insert_blog_def at_def as_int_to_string split: sum.splits)
  qed
qed

end

text \<open>Such a connection meets the contract.\<close>

lemma find_key:
  assumes "distinct (map key xs)"
  shows "find (\<lambda>p. key p = k) xs = Some p \<longleftrightarrow> p \<in> set xs \<and> key p = k"
  using assms by (induction xs) (auto simp: image_iff)

lemma find_key_None: "find (\<lambda>p. key p = k) xs = None \<longleftrightarrow> k \<notin> key ` set xs"
  by (induction xs) auto

sublocale posts_connection < bd: database conn_ok "\<lambda>c. True" "blog_insert_blog api"
  "blog_get_blog api" "blog_get_all_blogs api"
proof
  fix c t b i c' j p
  assume ok: "conn_ok c"
  note keys = keys [OF ok]
  have get: "blog_get_blog api c j = p \<longleftrightarrow> (p \<in> set (table c) \<and> postid p = j) \<or>
      (p = sentinel \<and> j \<notin> postid ` set (table c))" for j p
    using keys find_key [of postid "table c" j] find_key_None [of postid j "table c"]
    by (cases "find (\<lambda>p. postid p = j) (table c)") (auto simp: get_table [OF ok])
  show "blog_get_blog api c j = sentinel \<or> postid (blog_get_blog api c j) = j \<and> 0 \<le> j"
    using get [of j "blog_get_blog api c j"] keys by (auto simp: serial_def)
  show "(p \<in> set (blog_get_all_blogs api c)) = (0 \<le> postid p \<and> blog_get_blog api c (postid p) = p)"
    using get [of "postid p" p] keys by (auto simp: get_all_table [OF ok] serial_def sentinel_def)
  show "distinct (map postid (blog_get_all_blogs api c))"
    using keys by (simp add: get_all_table [OF ok])
  show "conn_ok (snd (blog_insert_blog api c t b))"
    using insert_cases [OF ok, of t b] by (cases "blog_insert_blog api c t b") auto
  show "in_int_range (fst (blog_insert_blog api c t b))"
    using insert_cases [OF ok, of t b]
    by (cases "blog_insert_blog api c t b") (auto simp: serial_def in_int_range_def INT_MIN_def INT_MAX_def)
  assume ins: "blog_insert_blog api c t b = (i, c')"
  note cases = insert_cases [OF ok ins]
  have get': "blog_get_blog api c' j = (case find (\<lambda>p. postid p = j) (table c') of None \<Rightarrow> sentinel | Some p \<Rightarrow> p)" for j
    using cases get_table by blast
  show "i < 0 \<Longrightarrow> i = - 1 \<and> blog_get_blog api c' = blog_get_blog api c \<and>
      blog_get_all_blogs api c' = blog_get_all_blogs api c"
    using cases by (auto simp: serial_def fun_eq_iff get_table [OF ok] get' get_all_table [OF ok] get_all_table)
  assume "0 \<le> i"
  then have i: "serial i" "i \<notin> postid ` set (table c)"
      "table c' = table c @ [\<lparr>postid = i, title = t, body = b\<rparr>]"
    using cases by auto
  show "blog_get_blog api c i = sentinel"
    using get i(2) by blast
  have find_snoc: "find P (xs @ [x]) = (case find P xs of Some y \<Rightarrow> Some y | None \<Rightarrow> if P x then Some x else None)"
    for P and xs :: "Blog list" and x by (induction xs) auto
  show "blog_get_blog api c' j = (if j = i then \<lparr>postid = i, title = t, body = b\<rparr> else blog_get_blog api c j)"
    using i(2) find_key_None [of postid i "table c"]
    by (auto simp: get' get_table [OF ok] i(3) find_snoc split: option.splits)
qed

context posts_connection
begin

lemma is_database: "database conn_ok (\<lambda>_. True) (blog_insert_blog api) (blog_get_blog api) (blog_get_all_blogs api)"
  by (rule bd.database_axioms)

end

text \<open>
  A connection to the table made by database/create_posts_table.sql, with its rows, the next
  number of the sequence and the row of a transaction that is not committed.
\<close>

record posts =
  rows :: "Blog list"
  next_id :: int
  pending :: "Blog list"

definition posts_insert :: "posts \<Rightarrow> string \<Rightarrow> string list \<Rightarrow> (string + pq_result) \<times> posts" where
  "posts_insert c stmt params =
     (if stmt = ''insert_blog'' \<and> length params = 2 \<and> next_id c \<le> INT_MAX then
        (Inr [[Some (to_string (next_id c))]],
         c\<lparr>pending := [\<lparr>postid = next_id c, title = params ! 0, body = params ! 1\<rparr>],
           next_id := next_id c + 1\<rparr>)
      else (Inl ''error'', c))"

definition posts_select :: "posts \<Rightarrow> string \<Rightarrow> string list \<Rightarrow> string + pq_result" where
  "posts_select c stmt params =
     (if stmt = ''get_all_blogs'' \<and> params = [] then Inr (map row_of (rows c))
      else if stmt = ''get_blog'' \<and> length params = 1 then
        Inr (map row_of (filter (\<lambda>p. to_string (postid p) = params ! 0) (rows c)))
      else Inl ''error'')"

definition posts_api :: "posts pq_api" where
  "posts_api = \<lparr>exec_work = posts_insert,
     commit = (\<lambda>c. (Inr (), c\<lparr>rows := rows c @ pending c, pending := []\<rparr>)),
     abort = (\<lambda>c. c\<lparr>pending := []\<rparr>), exec_read = posts_select,
     as_int = (\<lambda>f. case f of None \<Rightarrow> Inl ''null'' | Some s \<Rightarrow>
        (case stoi 10 s of Inl e \<Rightarrow> Inl ''conversion'' | Inr n \<Rightarrow> Inr n)),
     as_string = (\<lambda>f. case f of None \<Rightarrow> Inl ''null'' | Some s \<Rightarrow> Inr s)\<rparr>"

definition new_posts :: posts where
  "new_posts = \<lparr>rows = map (\<lambda>n. \<lparr>postid = int n, title = ''TestTitle'' @ dec_string n,
     body = ''TestBody'' @ dec_string n\<rparr>) [1..<11], next_id = 11, pending = []\<rparr>"

definition posts_ok :: "posts \<Rightarrow> bool" where
  "posts_ok c \<longleftrightarrow> distinct (map postid (rows c)) \<and> pending c = [] \<and> 1 \<le> next_id c \<and>
     (\<forall>p \<in> set (rows c). serial (postid p) \<and> postid p < next_id c)"

lemma posts_ok_new: "posts_ok new_posts"
  by (simp add: posts_ok_def new_posts_def serial_def INT_MAX_def distinct_map inj_on_def)

interpretation posts: posts_connection posts_api rows posts_ok
proof
  fix c t b R c' i e s
  show "serial i \<Longrightarrow> as_int posts_api (Some (to_string i)) = Inr i"
    using stoi_to_string [of i]
    by (simp add: posts_api_def serial_def in_int_range_def INT_MIN_def)
  show "as_string posts_api (Some s) = Inr s"
    by (simp add: posts_api_def)
  assume ok: "posts_ok c"
  show "distinct (map postid (rows c)) \<and> (\<forall>p \<in> set (rows c). serial (postid p))"
    using ok by (simp add: posts_ok_def)
  show "exec_read posts_api c ''get_all_blogs'' [] = Inr (map row_of (rows c))"
    by (simp add: posts_api_def posts_select_def)
  show "exec_read posts_api c ''get_blog'' [to_string i] =
      Inr (map row_of (filter (\<lambda>p. postid p = i) (rows c)))"
    by (simp add: posts_api_def posts_select_def to_string_inj)
  show "exec_work posts_api c ''insert_blog'' [t, b] = (Inl e, c') \<Longrightarrow>
      posts_ok (abort posts_api c') \<and> rows (abort posts_api c') = rows c"
    using ok by (auto simp: posts_api_def posts_insert_def posts_ok_def split: if_splits)
  assume "exec_work posts_api c ''insert_blog'' [t, b] = (Inr R, c')"
  then have "next_id c \<le> INT_MAX" "R = [[Some (to_string (next_id c))]]"
    "c' = c\<lparr>pending := [\<lparr>postid = next_id c, title = t, body = b\<rparr>], next_id := next_id c + 1\<rparr>"
    by (auto simp: posts_api_def posts_insert_def split: if_splits)
  then show "\<exists>i. R = [[Some (to_string i)]] \<and> serial i \<and> i \<notin> postid ` set (rows c) \<and>
      (case commit posts_api c' of
         (Inl e, c'') \<Rightarrow> posts_ok c'' \<and> rows c'' = rows c
       | (Inr u, c'') \<Rightarrow> posts_ok c'' \<and> rows c'' = rows c @ [\<lparr>postid = i, title = t, body = b\<rparr>])"
    using ok by (intro exI [where x = "next_id c"]) (fastforce simp: posts_api_def posts_ok_def serial_def)
qed

subsection \<open>\<open>blog_bigtable\<close>\<close>

text \<open>
  The library calls: reading all rows in the order of their keys, changing cells of one row, and
  reading one row. A row that could not be read is a message; \<open>read_row\<close> tells whether there is
  such a row. A cell is a column qualifier and a value.
\<close>

type_synonym cell = "string \<times> string"

record 't bigtable_api =
  read_rows :: "'t \<Rightarrow> (string + string \<times> cell list) list"
  apply_row :: "'t \<Rightarrow> string \<Rightarrow> (string \<times> cell) list \<Rightarrow> (string + unit) \<times> 't"
  read_row :: "'t \<Rightarrow> string \<Rightarrow> string \<Rightarrow> string + bool \<times> cell list"

abbreviation column_family :: string where "column_family \<equiv> ''postcontent''"

text \<open>
  The loop that looks for the latest key, with \<open>postid\<close> so far. \<open>(i, True)\<close>: it ran to its end;
  \<open>(i, False)\<close>: \<open>stoi\<close> raised, and the exception is caught after the insertion. A row that could
  not be read is used without a check, and \<open>INT_MAX + 1\<close> overflows.
\<close>

fun bt_next_id :: "(string + string \<times> cell list) list \<Rightarrow> int \<Rightarrow> cpp_error + int \<times> bool" where
  "bt_next_id [] i = Inr (i, True)"
| "bt_next_id (Inl e # rs) i = Inl UndefinedBehaviour"
| "bt_next_id (Inr (key, cells) # rs) i =
     (case stoi 10 key of
        Inl e \<Rightarrow> Inr (i, False)
      | Inr n \<Rightarrow> if n = INT_MAX then Inl UndefinedBehaviour else bt_next_id rs (n + 1))"

definition bt_insert_blog ::
  "'t bigtable_api \<Rightarrow> 't \<Rightarrow> string \<Rightarrow> string \<Rightarrow> cpp_error + int \<times> 't" where
  "bt_insert_blog api tab t b =
     and_then (bt_next_id (read_rows api tab) (- 1)) (\<lambda>(i, complete).
       if complete
       then Inr (i, snd (apply_row api tab (to_string i)
              [(column_family, ''title'', t), (column_family, ''body'', b)]))
       else Inr (i, tab))"

text \<open>The last cell of the column in the row, the variable starting out empty.\<close>

definition column_value :: "string \<Rightarrow> cell list \<Rightarrow> string" where
  "column_value q cells = fold (\<lambda>(q', v) acc. if q' = q then v else acc) cells []"

definition bt_get_blog :: "'t bigtable_api \<Rightarrow> 't \<Rightarrow> int \<Rightarrow> Blog" where
  "bt_get_blog api tab i =
     (case read_row api tab (to_string i) column_family of
        Inl e \<Rightarrow> sentinel
      | Inr (found, cells) \<Rightarrow>
          \<lparr>postid = i, title = column_value ''title'' cells, body = column_value ''body'' cells\<rparr>)"

fun bt_blogs :: "(string + string \<times> cell list) list \<Rightarrow> Blog list" where
  "bt_blogs [] = []"
| "bt_blogs (Inl e # rs) = []"
| "bt_blogs (Inr (key, cells) # rs) =
     (case stoi 10 key of
        Inl e \<Rightarrow> []
      | Inr i \<Rightarrow> \<lparr>postid = i, title = column_value ''title'' cells,
           body = column_value ''body'' cells\<rparr> # bt_blogs rs)"

definition bt_get_all_blogs :: "'t bigtable_api \<Rightarrow> 't \<Rightarrow> Blog list" where
  "bt_get_all_blogs api tab = bt_blogs (read_rows api tab)"

text \<open>
  The example program (src/bigtable/bigtable_blog_example.cc): what it prints. \<open>get_all_blogs\<close> and \<open>get_blog\<close> catch every
  exception, so only the insertion can fail.
\<close>

definition print_blog :: "Blog \<Rightarrow> string" where
  "print_blog blog = ''PostID = '' @ to_string (postid blog) @ [LF] @ ''Title = '' @ title blog @ [LF]
     @ ''Body = '' @ body blog @ [LF]"

definition bigtable_example :: "'t bigtable_api \<Rightarrow> 't \<Rightarrow> cpp_error + string" where
  "bigtable_example api tab =
     and_then (bt_insert_blog api tab ''TitlePost'' ''BodyPost'') (\<lambda>(i, tab').
       Inr (''INSERTING BLOG POST with Title: TitlePost and Body: BodyPost and Generated PostID:'' @ [LF]
         @ to_string i @ [LF]
         @ ''GETTING ALL BLOG POSTS IN BIGTABLE------------------------------------'' @ [LF]
         @ concat (map print_blog (bt_get_all_blogs api tab'))
         @ ''GETTING BLOG POST WITH POSTID 3------------------------------------'' @ [LF]
         @ print_blog (bt_get_blog api tab' 3)))"

text \<open>The identifier after rows with the keys \<open>ns\<close>: the last one plus one.\<close>

lemma bt_next_id_keys:
  assumes "list_all (\<lambda>n. in_int_range n \<and> 0 \<le> n \<and> n < INT_MAX) ns"
    "rs = map (\<lambda>(n, cells). Inr (to_string n, cells)) (zip ns cs)" "length cs = length ns"
  shows "bt_next_id rs i = Inr (if ns = [] then i else List.last ns + 1, True)"
  using assms
proof (induction ns arbitrary: cs rs i)
  case Nil
  then show ?case by simp
next
  case (Cons n ns)
  then obtain c cs' where cs: "cs = c # cs'" by (cases cs) auto
  have "stoi 10 (to_string n) = Inr n"
    using Cons.prems(1) by (intro stoi_to_string) auto
  then show ?case
    using Cons.prems Cons.IH [of _ cs' "n + 1"] by (simp add: cs)
qed

end
