(* ===== verification/BlogHandler.thy ===== *)
theory BlogHandler
  imports Handlers BlogDatabase
begin

text \<open>
  \<open>blog_upload_request_handler\<close> (src/blog_upload_request_handler.cc): the form of a POST is
  decoded, split into keys and values and stored; a GET lists all posts or shows one.

  The handler calls the database through the base class: \<open>database_ops\<close> holds the three virtual
  functions of the object \<open>bd_\<close>, whose state is the field \<open>bd\<close>. The result is the response and
  the handler afterwards, or the exception that leaves \<open>handle_request\<close>.

  Lemmas: decoding is the inverse of the encoding browsers use, the form comes back key by key, and
  what a POST stored is what the GET of its \<open>Location\<close> shows, for every database that keeps the
  contract.
\<close>

subsection \<open>Decoding\<close>

definition from_hex :: "8 word \<Rightarrow> 8 word" where
  "from_hex ch =
     (if ch \<le> of_char CHR ''9'' \<and> ch \<ge> of_char CHR ''0'' then ch - of_char CHR ''0''
      else if ch \<le> of_char CHR ''f'' \<and> ch \<ge> of_char CHR ''a'' then ch - (of_char CHR ''a'' - 10)
      else if ch \<le> of_char CHR ''F'' \<and> ch \<ge> of_char CHR ''A'' then ch - (of_char CHR ''A'' - 10)
      else 0)"

unbundle bit_operations_syntax

definition hex_pair :: "char \<Rightarrow> char \<Rightarrow> char" where
  "hex_pair c1 c2 =
     (let ch1 = from_hex (of_char c1); ch2 = from_hex (of_char c2)
      in char_of (unat (push_bit 4 ch1 OR ch2)))"


fun urldecode :: "string \<Rightarrow> string" where
  "urldecode [] = []"
| "urldecode (c # s) =
     (if c = CHR ''+'' then SP # urldecode s
      else if c = CHR ''%'' \<and> 2 \<le> length s then hex_pair (s ! 0) (s ! 1) # urldecode (drop 2 s)
      else c # urldecode s)"

text \<open>
  \<open>parseRequestBody\<close>: the loop over the characters with the map so far, the key, the value, and
  whether it reads a key.
\<close>

fun parse_form :: "smap \<Rightarrow> string \<Rightarrow> string \<Rightarrow> bool \<Rightarrow> string \<Rightarrow> smap" where
  "parse_form temp key val atkey [] = map_put key val temp"
| "parse_form temp key val atkey (c # s) =
     (if c = CHR ''='' then parse_form temp key val False s
      else if c = CHR ''&'' then parse_form (map_put key val temp) [] [] True s
      else if atkey then parse_form temp (key @ [c]) val atkey s
      else parse_form temp key (val @ [c]) atkey s)"

definition parseRequestBody :: "string \<Rightarrow> smap" where
  "parseRequestBody s = parse_form [] [] [] True s"

definition is_number :: "string \<Rightarrow> bool" where
  "is_number enter_string \<longleftrightarrow> enter_string \<noteq> [] \<and> (\<forall>c \<in> set enter_string. is_digit (char_int c))"

subsection \<open>The handler\<close>

record 'd database_ops =
  insert_op :: "'d \<Rightarrow> string \<Rightarrow> string \<Rightarrow> int \<times> 'd"
  get_op :: "'d \<Rightarrow> int \<Rightarrow> Blog"
  all_op :: "'d \<Rightarrow> Blog list"

record 'd blog_handler =
  form_to_value :: smap
  location_prefix :: string
  bd :: 'd

text \<open>
  \<open>Init\<close> looks the four settings up and connects: \<open>connect_db\<close> is the constructor of
  \<open>blog_database\<close>, which gets the connection string.
\<close>

definition connection_string :: "string \<Rightarrow> string \<Rightarrow> string \<Rightarrow> string \<Rightarrow> string \<Rightarrow> string" where
  "connection_string dbname user password hostaddr port =
     ''dbname = '' @ dbname @ '' user = '' @ user @ '' password = '' @ password
     @ '' hostaddr = '' @ hostaddr @ '' port = '' @ port"

definition blog_Init ::
  "(string \<Rightarrow> 'd) \<Rightarrow> string \<Rightarrow> NginxConfig \<Rightarrow> cpp_error + 'd blog_handler" where
  "blog_Init connect_db location_path cfg =
     and_then (map_at (blog_usernames cfg) location_path) (\<lambda>username.
     and_then (map_at (blog_passwords cfg) location_path) (\<lambda>password.
     and_then (map_at (blog_ips cfg) location_path) (\<lambda>host.
     and_then (map_at (blog_ports cfg) location_path) (\<lambda>port_num.
     Inr \<lparr>form_to_value = [], location_prefix = location_path,
          bd = connect_db (connection_string ''postgres'' username password host port_num)\<rparr>))))"

definition html_head :: "string \<Rightarrow> string" where
  "html_head page_title =
     ''<!DOCTYPE html>'' @ [LF] @
     ''<html>'' @ [LF] @
     ''    <head>'' @ [LF] @
     ''        <meta charset='' @ [SQ] @ ''utf-8'' @ [SQ] @ ''>'' @ [LF] @
     ''        <title>'' @ page_title @ ''</title>'' @ [LF] @
     ''    </head>'' @ [LF] @
     ''    <body style='' @ [DQ] @ ''text-align:center;'' @ [DQ] @ ''>'' @ [LF]"

definition blog_page :: "Blog \<Rightarrow> string" where
  "blog_page blog =
     html_head ''Blog Post'' @ ''      <h1>'' @ [LF] @
     (if postid blog < 0
      then ''Error: Unable to get blog entry from id.'' @ ''</h1>'' @ [LF]
        @ ''<p>'' @ [LF] @ ''Please use a valid id number</p>'' @ [LF, LF]
        @ ''</body>'' @ [LF] @ ''</html>'' @ [LF]
      else title blog @ ''</h1>'' @ [LF]
        @ ''<p>'' @ [LF] @ body blog @ ''</p>'' @ [LF]
        @ ''</body>'' @ [LF] @ ''<div style='' @ [DQ] @ ''position: fixed;bottom: 0;right: 0;'' @ [DQ]
        @ ''>POSTID: '' @ to_string (postid blog) @ ''</div></html>'' @ [LF])"

definition handle_get_one_blog :: "'d database_ops \<Rightarrow> 'd blog_handler \<Rightarrow> int \<Rightarrow> Response" where
  "handle_get_one_blog ops h i = body_response St_ok (blog_page (get_op ops (bd h) i)) ''text/html''"

definition blog_entry :: "Blog \<Rightarrow> string" where
  "blog_entry p =
     ''<div>*****POSTID: '' @ to_string (postid p) @ ''*****</div>''
     @ ''<h1>'' @ [LF] @ title p @ ''</h1>'' @ [LF]
     @ ''<p>'' @ [LF] @ body p @ ''</p>'' @ [LF]
     @ ''<div>'' @ replicate 85 CHR ''-'' @ ''</div>''"

definition handle_get_all_blogs :: "'d database_ops \<Rightarrow> 'd blog_handler \<Rightarrow> Response" where
  "handle_get_all_blogs ops h =
     body_response St_ok
       (html_head ''All Blogs'' @ concat (map blog_entry (all_op ops (bd h)))
        @ ''</body>'' @ [LF] @ ''</html>'' @ [LF]) ''text/html''"

text \<open>The last character of an empty prefix is read out of bounds.\<close>

definition handle_post_blog ::
  "'d database_ops \<Rightarrow> 'd blog_handler \<Rightarrow> string \<Rightarrow> string \<Rightarrow> cpp_error + Response \<times> 'd blog_handler" where
  "handle_post_blog ops h t b =
     (case insert_op ops (bd h) t b of (i, db) \<Rightarrow>
        if location_prefix h = [] then Inl UndefinedBehaviour
        else Inr (set_header ''Location''
                    (if List.last (location_prefix h) = CHR ''/'' then location_prefix h @ to_string i
                     else location_prefix h @ ''/'' @ to_string i)
                    (body_response St_moved_temporarily [] ''text/html''),
                  h\<lparr>bd := db\<rparr>))"

definition blog_handle_request ::
  "'d database_ops \<Rightarrow> 'd blog_handler \<Rightarrow> Request \<Rightarrow> cpp_error + Response \<times> 'd blog_handler" where
  "blog_handle_request ops h request =
     (let h = h\<lparr>form_to_value := parseRequestBody (urldecode (body_of request))\<rparr>
      in if method_of request = Some GET then
           and_then (substr_from (uri_of request) (length (location_prefix h))) (\<lambda>remain_uri.
             if contains_str (location_prefix h @ ''/'') (uri_of request)
             then Inr (handle_get_all_blogs ops h, h)
             else if length remain_uri \<le> 1 \<or> \<not> is_number (drop 1 remain_uri)
             then Inr (handle_get_one_blog ops h (- 1), h)
             else and_then (stoi 10 (drop 1 remain_uri)) (\<lambda>i.
               Inr (handle_get_one_blog ops h i, h)))
         else
           let t = map_index ''submissiontitle'' (form_to_value h);
               b = map_index ''submissionbody'' (snd t)
           in handle_post_blog ops (h\<lparr>form_to_value := snd b\<rparr>) (fst t) (fst b))"

subsection \<open>Decoding is the inverse of encoding\<close>

text \<open>The encoding of a form field: letters and digits as they are, a space as \<open>+\<close>, the rest in hex.\<close>

definition hex_upper :: "nat \<Rightarrow> char" where
  "hex_upper n = char_of (if n < 10 then 48 + n else 55 + n)"

definition is_alnum :: "char \<Rightarrow> bool" where
  "is_alnum c \<longleftrightarrow> (let n = of_char c :: nat in (48 \<le> n \<and> n \<le> 57) \<or> (65 \<le> n \<and> n \<le> 90) \<or> (97 \<le> n \<and> n \<le> 122))"

definition encode_char :: "char \<Rightarrow> string" where
  "encode_char c =
     (if is_alnum c then [c] else if c = SP then ''+''
      else [CHR ''%'', hex_upper (of_char c div 16), hex_upper (of_char c mod 16)])"

definition urlencode :: "string \<Rightarrow> string" where
  "urlencode s = concat (map encode_char s)"

lemma from_hex_upper:
  assumes "a < 16"
  shows "from_hex (of_char (hex_upper a)) = word_of_nat a"
proof -
  define n where "n = (if a < 10 then 48 + a else 55 + a)"
  have n: "n < 256" using assms by (simp add: n_def)
  have "of_char (hex_upper a) = (word_of_nat (of_char (hex_upper a)) :: 8 word)"
    by (simp only: of_nat_of_char)
  moreover have "hex_upper a = char_of n" by (simp add: hex_upper_def n_def)
  ultimately have ch: "of_char (hex_upper a) = (word_of_nat n :: 8 word)"
    using n by (simp only: of_char_of) (simp add: take_bit_nat_eq_self)
  have u: "unat (word_of_nat n :: 8 word) = n" using n by (simp add: unat_of_nat)
  show ?thesis
  proof (cases "a < 10")
    case True
    have "(word_of_nat n :: 8 word) \<le> 57" "(48 :: 8 word) \<le> word_of_nat n"
      unfolding word_le_nat_alt u using True by (simp_all add: n_def)
    then show ?thesis using True by (simp add: from_hex_def ch) (simp add: n_def)
  next
    case False
    have "\<not> (word_of_nat n :: 8 word) \<le> 57" "\<not> (97 :: 8 word) \<le> word_of_nat n"
      "(word_of_nat n :: 8 word) \<le> 70" "(65 :: 8 word) \<le> word_of_nat n"
      unfolding word_le_nat_alt u using False assms by (simp_all add: n_def)
    then show ?thesis using False by (simp add: from_hex_def ch) (simp add: n_def)
  qed
qed


lemma hex_digits_or:
  fixes a b :: nat
  assumes "a < 16" "b < 16"
  shows "unat (push_bit 4 (word_of_nat a :: 8 word) OR word_of_nat b) = 16 * a + b"
proof -
  have "push_bit 4 (word_of_nat a :: 8 word) OR word_of_nat b = word_of_nat (push_bit 4 a OR b)"
    by (simp add: of_nat_or_eq of_nat_push_bit)
  also have "push_bit 4 a OR b = push_bit 4 a + b"
  proof (rule disjunctive_add_eq_or [symmetric])
    have "b = take_bit 4 b" using assms(2) by (simp add: take_bit_nat_eq_self)
    moreover have "push_bit 4 a AND take_bit 4 b = 0"
      by (auto simp: bit_eq_iff bit_simps)
    ultimately show "push_bit 4 a AND b = 0" by simp
  qed
  finally have "push_bit 4 (word_of_nat a :: 8 word) OR word_of_nat b = word_of_nat (16 * a + b)"
    by (simp add: push_bit_eq_mult mult.commute)
  moreover have "16 * a + b < 256" using assms by simp
  ultimately show ?thesis by (simp only: unat_of_nat) simp
qed


lemma hex_pair_char:
  "hex_pair (hex_upper (of_char c div 16)) (hex_upper (of_char c mod 16)) = c"
proof -
  have "(of_char c :: nat) < 256" by (rule nat_of_char_less_256)
  then have "(of_char c :: nat) div 16 < 16" "(of_char c :: nat) mod 16 < 16"
    by (auto simp only: intro: less_mult_imp_div_less mod_less_divisor)
  then show ?thesis
    by (simp add: hex_pair_def from_hex_upper hex_digits_or)
qed

lemma is_alnum_not: "is_alnum c \<Longrightarrow> c \<noteq> CHR ''+'' \<and> c \<noteq> CHR ''%'' \<and> c \<noteq> CHR ''='' \<and> c \<noteq> CHR ''&''"
  by (auto simp: is_alnum_def)

lemma urldecode_encode_char: "urldecode (encode_char c @ s) = c # urldecode s"
  using is_alnum_not [of c]
  by (auto simp: encode_char_def hex_pair_char is_alnum_def)

lemma urldecode_encode_append: "urldecode (urlencode s @ t) = s @ urldecode t"
  by (induction s) (simp_all add: urlencode_def urldecode_encode_char)

lemma urldecode_encode: "urldecode (urlencode s) = s"
  using urldecode_encode_append [of s "[]"] by simp

subsection \<open>The form\<close>

definition plain_field :: "string \<Rightarrow> bool" where
  "plain_field s \<longleftrightarrow> CHR ''='' \<notin> set s \<and> CHR ''&'' \<notin> set s"

lemma parse_form_key:
  "plain_field k \<Longrightarrow> parse_form m key val True (k @ s) = parse_form m (key @ k) val True s"
  by (induction k arbitrary: key) (auto simp: plain_field_def)

lemma parse_form_value:
  "plain_field x \<Longrightarrow> parse_form m key val False (x @ s) = parse_form m key (val @ x) False s"
  by (induction x arbitrary: val) (auto simp: plain_field_def)

lemma parse_form_field:
  assumes "plain_field k" "plain_field x"
  shows "parse_form m [] [] True (k @ CHR ''='' # x) = map_put k x m"
    "parse_form m [] [] True (k @ CHR ''='' # x @ CHR ''&'' # s) = parse_form (map_put k x m) [] [] True s"
  using assms parse_form_value [OF assms(2), of m k "[]" "[]"] by (simp_all add: parse_form_key parse_form_value)

text \<open>A form: its fields joined by \<open>&\<close>.\<close>

fun print_form :: "(string \<times> string) list \<Rightarrow> string" where
  "print_form [] = []"
| "print_form [(k, x)] = k @ CHR ''='' # x"
| "print_form ((k, x) # fs) = k @ CHR ''='' # x @ CHR ''&'' # print_form fs"

lemma parse_form_print:
  assumes "fs \<noteq> []" "\<forall>(k, x) \<in> set fs. plain_field k \<and> plain_field x"
  shows "parse_form m [] [] True (print_form fs) = fold (\<lambda>(k, x). map_put k x) fs m"
  using assms
proof (induction fs arbitrary: m rule: print_form.induct)
  case 1
  then show ?case by simp
next
  case (2 k x)
  then show ?case by (simp add: parse_form_field)
next
  case (3 k x f fs)
  then show ?case by (simp add: parse_form_field)
qed

fun encode_form :: "(string \<times> string) list \<Rightarrow> string" where
  "encode_form [] = []"
| "encode_form [(k, x)] = urlencode k @ CHR ''='' # urlencode x"
| "encode_form ((k, x) # fs) = urlencode k @ CHR ''='' # urlencode x @ CHR ''&'' # encode_form fs"

lemma urldecode_encode_form: "urldecode (encode_form fs) = print_form fs"
  by (induction fs rule: encode_form.induct) (simp_all add: urldecode_encode_append urldecode_encode)

text \<open>The fields of an encoded form come back, if none holds \<open>=\<close> or \<open>&\<close>.\<close>

lemma parseRequestBody_form:
  assumes "fs \<noteq> []" "\<forall>(k, x) \<in> set fs. plain_field k \<and> plain_field x"
  shows "map_of (parseRequestBody (urldecode (encode_form fs))) = map_of (rev fs)"
  using assms sm.get_fold_emp [of fs]
  by (simp add: urldecode_encode_form parseRequestBody_def parse_form_print)

subsection \<open>Requests\<close>

lemma is_number_dec_string: "is_number (dec_string n)"
  unfolding is_number_def is_digit_def
  using dec_string_char_int(2,3,4) by (auto simp: char_int_def)

lemma not_contains_longer: "length s < length pat \<Longrightarrow> \<not> contains_str s pat"
  using find_from_Some_length [of pat s 0] by (cases "find_from pat s 0") (auto simp: contains_str_def)

text \<open>The GET of a number, in the range of \<open>int\<close> or not.\<close>

lemma get_number:
  assumes "method_of request = Some GET"
    "uri_of request = location_prefix h @ ''/'' @ dec_string n"
  shows "blog_handle_request ops h request =
    (if in_int_range (int n)
     then Inr (handle_get_one_blog ops h (int n),
               h\<lparr>form_to_value := parseRequestBody (urldecode (body_of request))\<rparr>)
     else Inl OutOfRange)"
proof -
  have "\<not> contains_str (location_prefix h @ ''/'') (location_prefix h @ ''/'' @ dec_string n)"
    by (rule not_contains_longer) (simp add: Suc_lessI)
  then show ?thesis
    using assms is_number_dec_string [of n]
    by (simp add: blog_handle_request_def Let_def substr_from_def stoi_dec_string_value
        handle_get_one_blog_def)
qed

text \<open>Anything that is not a number asks for the post \<open>-1\<close>, which no database has.\<close>

lemma get_not_number:
  assumes "method_of request = Some GET"
    "uri_of request = location_prefix h @ ''/'' @ s" "s \<noteq> []" "\<not> is_number s"
  shows "blog_handle_request ops h request =
    Inr (handle_get_one_blog ops h (- 1),
         h\<lparr>form_to_value := parseRequestBody (urldecode (body_of request))\<rparr>)"
proof -
  have "\<not> contains_str (location_prefix h @ ''/'') (location_prefix h @ ''/'' @ s)"
    using assms(3) by (intro not_contains_longer) (cases s; simp)
  then show ?thesis
    using assms by (simp add: blog_handle_request_def Let_def substr_from_def handle_get_one_blog_def)
qed

lemma post_request:
  assumes "method_of request \<noteq> Some GET" "location_prefix h \<noteq> []" "List.last (location_prefix h) \<noteq> CHR ''/''"
    "map_of (parseRequestBody (urldecode (body_of request))) ''submissiontitle'' = Some t"
    "map_of (parseRequestBody (urldecode (body_of request))) ''submissionbody'' = Some b"
    "insert_op ops (bd h) t b = (i, db)"
  shows "blog_handle_request ops h request =
    Inr (set_header ''Location'' (location_prefix h @ ''/'' @ to_string i)
           (body_response St_moved_temporarily [] ''text/html''),
         h\<lparr>form_to_value := parseRequestBody (urldecode (body_of request)), bd := db\<rparr>)"
  using assms by (simp add: blog_handle_request_def Let_def map_index_def handle_post_blog_def)

context database
begin

text \<open>What was posted is what is shown.\<close>

lemma post_then_get:
  assumes db: "inv (bd h)" "room (bd h)"
    and prefix: "location_prefix h \<noteq> []" "List.last (location_prefix h) \<noteq> CHR ''/''"
    and post: "method_of request \<noteq> Some GET"
      "map_of (parseRequestBody (urldecode (body_of request))) ''submissiontitle'' = Some t"
      "map_of (parseRequestBody (urldecode (body_of request))) ''submissionbody'' = Some b"
    and get: "method_of request' = Some GET" "uri_of request' = location_prefix h @ ''/'' @ to_string i"
    and id: "0 \<le> i" "i = fst (insert_blog (bd h) t b)"
    and ops: "insert_op ops = insert_blog" "get_op ops = get_blog"
  shows "\<exists>r h'. blog_handle_request ops h request = Inr (r, h') \<and>
    code_of r = St_moved_temporarily \<and> map_of (rheaders_of r) ''Location'' = Some (uri_of request') \<and>
    inv (bd h') \<and>
    (\<exists>h''. blog_handle_request ops h' request' =
       Inr (body_response St_ok (blog_page \<lparr>postid = i, title = t, body = b\<rparr>) ''text/html'', h''))"
proof -
  obtain db' where ins: "insert_blog (bd h) t b = (i, db')"
    using id(2) by (cases "insert_blog (bd h) t b") auto
  define h' where "h' = h\<lparr>form_to_value := parseRequestBody (urldecode (body_of request)), bd := db'\<rparr>"
  have post': "blog_handle_request ops h request =
    Inr (set_header ''Location'' (location_prefix h @ ''/'' @ to_string i)
           (body_response St_moved_temporarily [] ''text/html''), h')"
    unfolding h'_def by (rule post_request [OF post(1) prefix post(2,3)]) (simp add: ops ins)
  have range: "in_int_range i"
    using insert_int [OF db, of t b] by (simp add: ins)
  have uri: "uri_of request' = location_prefix h' @ ''/'' @ dec_string (nat i)"
    using get(2) id(1) by (simp add: h'_def to_string_def)
  have "get_blog db' i = \<lparr>postid = i, title = t, body = b\<rparr>"
    using insert_get [OF db ins id(1), of i] by simp
  then have "handle_get_one_blog ops h' (int (nat i)) =
      body_response St_ok (blog_page \<lparr>postid = i, title = t, body = b\<rparr>) ''text/html''"
    using id(1) by (simp add: handle_get_one_blog_def ops h'_def)
  moreover have "inv (bd h')"
    using insert_inv [OF db, of t b] by (simp add: h'_def ins)
  ultimately show ?thesis
    using get_number [OF get(1) uri, of ops] range id(1)
    by (simp add: post' get(2))
qed

end

definition mock_ops :: "Blog list database_ops" where
  "mock_ops = \<lparr>insert_op = mock_insert_blog, get_op = mock_get_blog, all_op = mock_get_all_blogs\<rparr>"

definition blog_ops :: "'c pq_api \<Rightarrow> 'c database_ops" where
  "blog_ops api = \<lparr>insert_op = blog_insert_blog api, get_op = blog_get_blog api,
     all_op = blog_get_all_blogs api\<rparr>"

lemma database_ops_simps [simp]:
  "insert_op mock_ops = mock_insert_blog" "get_op mock_ops = mock_get_blog" "all_op mock_ops = mock_get_all_blogs"
  "insert_op (blog_ops api) = blog_insert_blog api" "get_op (blog_ops api) = blog_get_blog api"
  "all_op (blog_ops api) = blog_get_all_blogs api"
  by (simp_all add: mock_ops_def blog_ops_def)

end
