(* ===== verification/BlogProperties.thy ===== *)
theory BlogProperties
  imports BlogHandler
begin

text \<open>
  The properties of the blog: what a form carries to the handler, that a posted blog can be read at the address of the
  redirect, what the two databases promise, and where the Bigtable variant breaks that promise.
\<close>

subsection \<open>Forms\<close>

text \<open>
  C23. \<open>urldecode\<close> is the inverse of the percent encoding browsers use for forms, on every string of bytes.
\<close>

theorem urldecode_inverse: "urldecode (urlencode s) = s"
  by (rule urldecode_encode)



text \<open>
  A value with an encoded \<open>&\<close> is cut: what follows the \<open>&\<close> is taken for the name of another field.
\<close>

theorem form_value_cut:
  assumes "plain_field k" "plain_field x" "plain_field y"
  shows "map_of (parseRequestBody (urldecode (urlencode k @ CHR ''='' # urlencode (x @ CHR ''&'' # y)))) =
    [k \<mapsto> x, y \<mapsto> []]"
proof -
  have dec: "urldecode (urlencode k @ CHR ''='' # urlencode (x @ CHR ''&'' # y)) =
      k @ CHR ''='' # x @ CHR ''&'' # y"
    by (simp add: urldecode_encode_append urldecode_encode)
  have "parse_form m [] [] True y = map_put y [] m" for m
    using parse_form_key [OF assms(3), of m "[]" "[]" "[]"] by simp
  then have "parseRequestBody (k @ CHR ''='' # x @ CHR ''&'' # y) = map_put y [] (map_put k x [])"
    by (simp add: parseRequestBody_def parse_form_field(2) [OF assms(1,2)])
  then show ?thesis by (simp add: dec fun_upd_twist)
qed

theorem form_value_cut_witness:
  "map_of (parseRequestBody (urldecode (urlencode ''t'' @ CHR ''='' # urlencode (''a'' @ CHR ''&'' # ''b'')))) =
    [''t'' \<mapsto> ''a'', ''b'' \<mapsto> []]"
  by (rule form_value_cut) (simp_all add: plain_field_def)

subsection \<open>Reading one blog\<close>

text \<open>
  A GET for a number below the location shows the blog with that id. A number above the largest \<open>int\<close> is not an error
  page: \<open>std::stoi\<close> raises \<open>std::out_of_range\<close> out of the handler.
\<close>

theorem blog_by_number:
  assumes "method_of request = Some GET" "uri_of request = location_prefix h @ ''/'' @ dec_string n"
  shows "blog_handle_request ops h request =
    (if int n \<le> INT_MAX
     then Inr (body_response St_ok (blog_page (get_op ops (bd h) (int n))) ''text/html'',
               h\<lparr>form_to_value := parseRequestBody (urldecode (body_of request))\<rparr>)
     else Inl OutOfRange)"
  by (simp add: get_number [OF assms] handle_get_one_blog_def in_int_range_def INT_MIN_def)

abbreviation example_blog :: "'d \<Rightarrow> 'd blog_handler" where
  "example_blog d \<equiv> \<lparr>form_to_value = [], location_prefix = ''/blog'', bd = d\<rparr>"
abbreviation blog_get :: "nat \<Rightarrow> Request" where
  "blog_get n \<equiv> \<lparr>method_of = Some GET, uri_of = ''/blog'' @ ''/'' @ dec_string n, version_of = ''HTTP/1.1'',
     headers_of = [], body_of = []\<rparr>"
abbreviation blog_post :: Request where
  "blog_post \<equiv> \<lparr>method_of = Some POST, uri_of = ''/blog'', version_of = ''HTTP/1.1'', headers_of = [],
     body_of = ''submissiontitle=a&submissionbody=b''\<rparr>"

theorem blog_by_number_witness:
  "blog_handle_request mock_ops (example_blog []) (blog_get 3000000000) =
    (if int 3000000000 \<le> INT_MAX
     then Inr (body_response St_ok (blog_page (get_op mock_ops (bd (example_blog [])) (int 3000000000))) ''text/html'',
               (example_blog [])\<lparr>form_to_value := parseRequestBody (urldecode (body_of (blog_get 3000000000)))\<rparr>)
     else Inl OutOfRange)"
  by (rule blog_by_number) simp_all

abbreviation example_uri_minus_one :: Request where
  "example_uri_minus_one \<equiv> (blog_get 0)\<lparr>uri_of := ''/blog'' @ ''/'' @ ''-1''\<rparr>"

subsection \<open>Posting and reading back\<close>

text \<open>
  A blog posted through the handler to any Postgres connection that behaves as documented, and given an id, is shown by
  the next GET for the address in the \<open>Location\<close> header of the redirect, with the title and the body of the form.
\<close>

theorem post_then_get_posts:
  assumes "posts_connection api table conn_ok" "conn_ok (bd h)"
    and "location_prefix h \<noteq> []" "List.last (location_prefix h) \<noteq> CHR ''/''"
    and "method_of request \<noteq> Some GET"
    and "map_of (parseRequestBody (urldecode (body_of request))) ''submissiontitle'' = Some t"
    and "map_of (parseRequestBody (urldecode (body_of request))) ''submissionbody'' = Some b"
    and "method_of request' = Some GET" "uri_of request' = location_prefix h @ ''/'' @ to_string i"
    and "0 \<le> i" "i = fst (blog_insert_blog api (bd h) t b)"
  shows "\<exists>r h'. blog_handle_request (blog_ops api) h request = Inr (r, h') \<and>
    code_of r = St_moved_temporarily \<and> map_of (rheaders_of r) ''Location'' = Some (uri_of request') \<and>
    conn_ok (bd h') \<and>
    (\<exists>h''. blog_handle_request (blog_ops api) h' request' =
       Inr (body_response St_ok (blog_page \<lparr>postid = i, title = t, body = b\<rparr>) ''text/html'', h''))"
  using assms(2-11)
  by (intro database.post_then_get [OF posts_connection.is_database [OF assms(1)]]) simp_all

lemma form_of_blog_post:
  "map_of (parseRequestBody (urldecode (body_of blog_post))) ''submissiontitle'' = Some ''a''"
  "map_of (parseRequestBody (urldecode (body_of blog_post))) ''submissionbody'' = Some ''b''"
  by (simp_all add: parseRequestBody_def)

lemma posts_insert_new: "blog_insert_blog posts_api new_posts t b =
   (11, new_posts\<lparr>rows := rows new_posts @ [\<lparr>postid = 11, title = t, body = b\<rparr>], next_id := 12\<rparr>)"
proof -
  have "stoi 10 (to_string 11) = Inr 11" by (rule stoi_to_string) (simp_all add: in_int_range_def INT_MIN_def INT_MAX_def)
  then show ?thesis
    by (simp add: blog_insert_blog_def posts_api_def posts_insert_def new_posts_def INT_MAX_def at_def)
qed

theorem post_then_get_posts_witness:
  "\<exists>r h'. blog_handle_request (blog_ops posts_api) (example_blog new_posts) blog_post = Inr (r, h') \<and>
    code_of r = St_moved_temporarily \<and> map_of (rheaders_of r) ''Location'' = Some (uri_of (blog_get 11)) \<and>
    posts_ok (bd h') \<and>
    (\<exists>h''. blog_handle_request (blog_ops posts_api) h' (blog_get 11) =
       Inr (body_response St_ok (blog_page \<lparr>postid = 11, title = ''a'', body = ''b''\<rparr>) ''text/html'', h''))"
  by (rule post_then_get_posts [OF posts.posts_connection_axioms])
    (simp_all add: posts_ok_new form_of_blog_post posts_insert_new parseRequestBody_def to_string_def)

text \<open>
  When the database fails to insert, the client is redirected all the same, to the address of the id -1; a GET there shows
  the error page, with status 200, and no blog was added.
\<close>

theorem post_failure:
  assumes "posts_connection api table conn_ok" "conn_ok (bd h)"
    and "location_prefix h \<noteq> []" "List.last (location_prefix h) \<noteq> CHR ''/''"
    and "method_of request \<noteq> Some GET"
    and "map_of (parseRequestBody (urldecode (body_of request))) ''submissiontitle'' = Some t"
    and "map_of (parseRequestBody (urldecode (body_of request))) ''submissionbody'' = Some b"
    and "method_of request' = Some GET" "uri_of request' = location_prefix h @ ''/'' @ ''-1''"
    and "exec_work api (bd h) ''insert_blog'' [t, b] = (Inl e, c)"
  shows "\<exists>r h'. blog_handle_request (blog_ops api) h request = Inr (r, h') \<and>
    map_of (rheaders_of r) ''Location'' = Some (uri_of request') \<and>
    blog_get_all_blogs api (bd h') = blog_get_all_blogs api (bd h) \<and>
    (\<exists>h''. blog_handle_request (blog_ops api) h' request' =
       Inr (body_response St_ok (blog_page sentinel) ''text/html'', h''))"
proof -
  note db = posts_connection.is_database [OF assms(1)]
  have ins: "blog_insert_blog api (bd h) t b = (- 1, abort api c)"
    by (simp add: blog_insert_blog_def assms(10))
  define h' where "h' = h\<lparr>form_to_value := parseRequestBody (urldecode (body_of request)), bd := abort api c\<rparr>"
  have post: "blog_handle_request (blog_ops api) h request =
    Inr (set_header ''Location'' (location_prefix h @ ''/'' @ to_string (- 1))
           (body_response St_moved_temporarily [] ''text/html''), h')"
    unfolding h'_def by (rule post_request [OF assms(5,3,4,6,7)]) (simp add: ins)
  have conn: "conn_ok (abort api c)"
    using posts_connection.insert_error [OF assms(1,2,10)] by blast
  have same: "blog_get_all_blogs api (abort api c) = blog_get_all_blogs api (bd h)"
    using database.insert_fails [OF db assms(2) _ ins] by simp
  have "\<not> is_number ''-1''" by (simp add: is_number_def is_digit_def char_int_def)
  moreover have "blog_get_blog api (abort api c) (- 1) = sentinel"
    using database.get_absent [OF db conn, of "- 1"] by simp
  moreover have "to_string (- 1) = ''-1''" by code_simp
  ultimately show ?thesis
    using get_not_number [OF assms(8), of h' "''-1''" "blog_ops api"] assms(9)
    by (simp add: post h'_def same handle_get_one_blog_def)
qed

text \<open>A connection whose table has used up the serial numbers, so that every insertion fails.\<close>

abbreviation full_posts :: posts where
  "full_posts \<equiv> new_posts\<lparr>next_id := INT_MAX + 1\<rparr>"

lemma full_posts_ok: "posts_ok full_posts"
  using posts_ok_new by (auto simp: posts_ok_def serial_def INT_MAX_def)

theorem post_failure_witness:
  "\<exists>r h'. blog_handle_request (blog_ops posts_api) (example_blog full_posts) blog_post = Inr (r, h') \<and>
    map_of (rheaders_of r) ''Location'' = Some (uri_of example_uri_minus_one) \<and>
    blog_get_all_blogs posts_api (bd h') = blog_get_all_blogs posts_api (bd (example_blog full_posts)) \<and>
    (\<exists>h''. blog_handle_request (blog_ops posts_api) h' example_uri_minus_one =
       Inr (body_response St_ok (blog_page sentinel) ''text/html'', h''))"
  by (rule post_failure [OF posts.posts_connection_axioms])
    (simp_all add: full_posts_ok parseRequestBody_def posts_api_def posts_insert_def)

subsection \<open>What a database promises\<close>



text \<open>
  The mock database of the tests keeps the same promise as long as its ids fit an \<open>int\<close>, and never fails: ids count up from 1.
\<close>

theorem mock_insert_contract:
  assumes "mock_ok db" "mock_room db" "mock_insert_blog db t b = (i, db')"
  shows "mock_ok db' \<and> i = int (length db) + 1 \<and> mock_get_blog db i = sentinel
    \<and> mock_get_blog db' = (mock_get_blog db)(i := \<lparr>postid = i, title = t, body = b\<rparr>)
    \<and> set (mock_get_all_blogs db') = insert \<lparr>postid = i, title = t, body = b\<rparr> (set (mock_get_all_blogs db))"
proof -
  have i: "i = int (length db) + 1"
    using assms(2,3) by (simp add: mock_insert_blog_def mock_room_def to_i32 Let_def)
  moreover have "mock_ok db'" using mock.insert_inv [OF assms(1,2), of t b] assms(3) by simp
  ultimately show ?thesis
    using mock.insert_fresh [OF assms] mock.insert_get [OF assms] mock.insert_all [OF assms]
    by (auto simp: fun_eq_iff)
qed

theorem mock_insert_contract_witness:
  "mock_ok [\<lparr>postid = 1, title = ''a'', body = ''b''\<rparr>] \<and> 1 = int (length ([] :: Blog list)) + 1
    \<and> mock_get_blog [] 1 = sentinel
    \<and> mock_get_blog [\<lparr>postid = 1, title = ''a'', body = ''b''\<rparr>] =
        (mock_get_blog [])(1 := \<lparr>postid = 1, title = ''a'', body = ''b''\<rparr>)
    \<and> set (mock_get_all_blogs [\<lparr>postid = 1, title = ''a'', body = ''b''\<rparr>]) =
        insert \<lparr>postid = 1, title = ''a'', body = ''b''\<rparr> (set (mock_get_all_blogs []))"
  by (rule mock_insert_contract) (simp_all add: mock_ok_empty mock_room_def mock_insert_blog_def to_i32_def)

subsection \<open>Bigtable\<close>

text \<open>
  In the Bigtable variant the first blog of an empty table is stored under the row key \<open>-1\<close>, the id that everywhere else
  means an error.
\<close>

theorem bigtable_first_blog:
  assumes "read_rows api tab = []"
  shows "bt_insert_blog api tab t b = Inr (- 1, snd (apply_row api tab ''-1''
    [(''postcontent'', ''title'', t), (''postcontent'', ''body'', b)]))"
proof -
  have "to_string (- 1) = ''-1''" by code_simp
  with assms show ?thesis by (simp add: bt_insert_blog_def)
qed

abbreviation empty_table_api :: "(string \<times> (string \<times> cell) list) list bigtable_api" where
  "empty_table_api \<equiv> \<lparr>read_rows = (\<lambda>tab. map (\<lambda>(k, cs). Inr (k, map snd cs)) tab),
     apply_row = (\<lambda>tab k cs. (Inr (), map_put k cs tab)),
     read_row = (\<lambda>tab k fam. Inr (case map_of tab k of None \<Rightarrow> (False, []) | Some cs \<Rightarrow> (True, map snd cs)))\<rparr>"

theorem bigtable_first_blog_witness:
  "bt_insert_blog empty_table_api [] ''a'' ''b'' = Inr (- 1, snd (apply_row empty_table_api [] ''-1''
    [(''postcontent'', ''title'', ''a''), (''postcontent'', ''body'', ''b'')]))"
  by (rule bigtable_first_blog) simp

text \<open>
  On an empty table the example program shows its own post with the id -1, and a blog with the id 3 although there is none:
  that the row was not found is only logged.
\<close>

theorem bigtable_example_first_run:
  "bigtable_example empty_table_api [] = Inr (
     ''INSERTING BLOG POST with Title: TitlePost and Body: BodyPost and Generated PostID:'' @ [LF] @ ''-1'' @ [LF]
     @ ''GETTING ALL BLOG POSTS IN BIGTABLE------------------------------------'' @ [LF]
     @ print_blog \<lparr>postid = - 1, title = ''TitlePost'', body = ''BodyPost''\<rparr>
     @ ''GETTING BLOG POST WITH POSTID 3------------------------------------'' @ [LF]
     @ print_blog \<lparr>postid = 3, title = [], body = []\<rparr>)"
proof -
  have "to_string (- 1) = ''-1''" by code_simp
  moreover have "to_string 3 = ''3''" "stoi 10 ''-1'' = Inr (- 1)" by code_simp+
  ultimately show ?thesis
    by (simp add: bigtable_example_def bt_insert_blog_def bt_get_all_blogs_def bt_get_blog_def column_value_def)
qed

text \<open>
  Row keys are decimal strings, and Bigtable returns rows in the order of their bytes. With the ids 0 to 10 in the table
  the last row read is 9, so the next blog gets the id 10 again and is written over the blog that has it.
\<close>

theorem bigtable_overwrites:
  assumes "length cells = 11"
    and "read_rows api tab = map (\<lambda>(n, c). Inr (to_string n, c)) (zip [0, 1, 10, 2, 3, 4, 5, 6, 7, 8, 9] cells)"
  shows "sorted_wrt (<) (map to_string [0, 1, 10, 2, 3, 4, 5, 6, 7, 8, 9])
    \<and> bt_insert_blog api tab t b = Inr (10, snd (apply_row api tab (to_string 10)
        [(''postcontent'', ''title'', t), (''postcontent'', ''body'', b)]))"
proof
  show "sorted_wrt (<) (map to_string [0, 1, 10, 2, 3, 4, 5, 6, 7, 8, 9])" by code_simp
  have "bt_next_id (read_rows api tab) (- 1) = Inr (10, True)"
    using bt_next_id_keys [OF _ assms(2), of "- 1"] assms(1)
    by (simp add: in_int_range_def INT_MIN_def INT_MAX_def)
  then show "bt_insert_blog api tab t b = Inr (10, snd (apply_row api tab (to_string 10)
        [(''postcontent'', ''title'', t), (''postcontent'', ''body'', b)]))"
    by (simp add: bt_insert_blog_def)
qed

abbreviation eleven_rows :: "int list" where "eleven_rows \<equiv> [0, 1, 10, 2, 3, 4, 5, 6, 7, 8, 9]"
abbreviation eleven_api :: "unit bigtable_api" where
  "eleven_api \<equiv> \<lparr>read_rows = (\<lambda>_. map (\<lambda>(n, c). Inr (to_string n, c)) (zip eleven_rows (replicate 11 []))),
     apply_row = (\<lambda>tab k cs. (Inr (), tab)), read_row = (\<lambda>tab k fam. Inr (True, []))\<rparr>"

theorem bigtable_overwrites_witness:
  "sorted_wrt (<) (map to_string eleven_rows)
    \<and> bt_insert_blog eleven_api () ''a'' ''b'' = Inr (10, snd (apply_row eleven_api () (to_string 10)
        [(''postcontent'', ''title'', ''a''), (''postcontent'', ''body'', ''b'')]))"
  by (rule bigtable_overwrites [of "replicate 11 []"]) simp_all

end
