(* ===== verification/ProxyHandler.thy ===== *)
theory ProxyHandler
  imports Handlers
begin

text \<open>
  \<open>proxy_request_handler\<close> (src/proxy_request_handler.cc): the request is sent on to another server, redirects of that
  server are followed, and the links of an HTML answer are rewritten to point below the handler's location.

  What is not in the repository is a parameter. \<open>network\<close> is one blocking connection of Boost.Asio: \<open>exchange w host service bytes\<close>
  resolves and connects, writes the request and gives the results of the reads that follow, or the error that
  \<open>resolve\<close>, \<open>connect\<close> or \<open>write\<close> throws; \<open>w\<close> is the state of the outside world, and when the list of reads is used
  up the connection is closed. A read gives the bytes of one \<open>read_some\<close> or, as \<open>None\<close>, an error. \<open>initial_contentsize\<close> is the value the
  uninitialised counter of the \<open>response_builder\<close> has. \<open>html_lib\<close> is zlib and libxml2: a document is the nodes from the root on,
  a tree of abstract nodes whose attributes are read and written.

  A chain of redirects may have no end, and then the code recurses without bound: \<open>proxy_request\<close> takes fuel, one unit
  for each request sent, and is \<open>None\<close> when it runs out.
\<close>

subsection \<open>State\<close>

record proxy_request_handler =
  proxy_client_location_path :: string
  server_url :: string
  server_location_path :: string
  server_port_num :: int

definition proxy_Init :: "string \<Rightarrow> NginxConfig \<Rightarrow> cpp_error + proxy_request_handler" where
  "proxy_Init location_path cfg =
     and_then (map_at (proxy_locations cfg) location_path) (\<lambda>(server_url, port).
       Inr (case find_from ''/'' server_url 0 of
         Some pos \<Rightarrow>
           let path = drop pos server_url
           in \<lparr>proxy_client_location_path = location_path, server_url = take pos server_url,
               server_location_path = (if last path = CHR ''/'' then take (length path - 1) path else path),
               server_port_num = port\<rparr>
       | None \<Rightarrow>
           \<lparr>proxy_client_location_path = location_path, server_url = server_url,
            server_location_path = [], server_port_num = port\<rparr>))"

subsection \<open>The request sent on\<close>

definition proxy_method :: "MethodEnum option \<Rightarrow> string" where
  "proxy_method m =
     (case m of
        Some GET \<Rightarrow> ''GET ''
      | Some POST \<Rightarrow> ''POST ''
      | Some DELETE \<Rightarrow> ''DELETE ''
      | Some HEAD \<Rightarrow> ''HEAD ''
      | Some PUT \<Rightarrow> ''PUT ''
      | Some CONNECT \<Rightarrow> ''CONNECT ''
      | Some OPTIONS \<Rightarrow> ''OPTIONS ''
      | Some TRACE \<Rightarrow> ''TRACE ''
      | None \<Rightarrow> [])"

text \<open>After the method, the lines of the request are built as the echo handler builds them.\<close>

definition proxy_build_request_string :: "Request \<Rightarrow> string" where
  "proxy_build_request_string request = proxy_method (method_of request) @ request_rest request"

definition proxied_request :: "Request \<Rightarrow> string \<Rightarrow> string \<Rightarrow> int \<Rightarrow> Request" where
  "proxied_request request uri url port =
     \<lparr>method_of = method_of request, uri_of = uri, version_of = version_of request,
      headers_of = map_put ''Accept-Encoding'' ''gzip, identity''
        (map_put ''Host'' (url @ '':'' @ to_string port) (headers_of request)),
      body_of = body_of request\<rparr>"

subsection \<open>Links\<close>

text \<open>The new value of a link, or \<open>None\<close> when it is left as it is.\<close>

definition rewrite_link :: "string \<Rightarrow> string \<Rightarrow> string option" where
  "rewrite_link loc prop =
     (if length prop > 1 \<and> prop ! 0 = CHR ''#'' then None
      else if length prop > 2 \<and> take 2 prop = ''//'' then None
      else if length prop > 4 \<and> take 4 prop = ''http'' then None
      else Some (loc @ (if prop = [] \<or> prop ! 0 \<noteq> CHR ''/'' then CHR ''/'' # prop else prop)))"

datatype 'e xml = Node (element: 'e) (children: "'e xml list")

record ('d, 'e) html_lib =
  gunzip :: "string \<Rightarrow> string option"
  html_read :: "string \<Rightarrow> string \<Rightarrow> 'd"
  html_nodes :: "'d \<Rightarrow> 'e xml list"
  html_update :: "'e xml list \<Rightarrow> 'd \<Rightarrow> 'd"
  html_dump :: "'d \<Rightarrow> string option"
  is_element :: "'e \<Rightarrow> bool"
  get_prop :: "'e \<Rightarrow> string \<Rightarrow> string option"
  set_prop :: "string \<Rightarrow> string \<Rightarrow> 'e \<Rightarrow> 'e"

definition handle_property :: "('d, 'e) html_lib \<Rightarrow> string \<Rightarrow> string \<Rightarrow> 'e \<Rightarrow> 'e" where
  "handle_property lib loc property e =
     (case get_prop lib e property of
        None \<Rightarrow> e
      | Some prop \<Rightarrow>
          (case rewrite_link loc prop of
             None \<Rightarrow> e
           | Some prop' \<Rightarrow> set_prop lib property prop' e))"

fun modify_html_doc :: "('d, 'e) html_lib \<Rightarrow> string \<Rightarrow> 'e xml list \<Rightarrow> 'e xml list" where
  "modify_html_doc lib loc [] = []"
| "modify_html_doc lib loc (Node e cs # ns) =
     Node (if is_element lib e
           then handle_property lib loc ''src'' (handle_property lib loc ''href'' e) else e)
       (modify_html_doc lib loc cs) # modify_html_doc lib loc ns"

definition handle_html ::
  "('d, 'e) html_lib \<Rightarrow> proxy_request_handler \<Rightarrow> Response \<Rightarrow> cpp_error + Response" where
  "handle_html lib h response =
     and_then
       (case map_of (rheaders_of response) ''Content-Encoding'' of
          None \<Rightarrow> Inr (rbody_of response, response)
        | Some encoding \<Rightarrow>
            and_then
              (if contains_str encoding ''gzip'' then
                 (case gunzip lib (rbody_of response) of None \<Rightarrow> Inl SystemError | Some html \<Rightarrow> Inr html)
               else Inr (rbody_of response))
              (\<lambda>html. Inr (html, set_header ''Content-Encoding'' ''identity'' response)))
       (\<lambda>(html, response).
          let doc = html_read lib html (server_url h);
              doc = html_update lib (modify_html_doc lib (proxy_client_location_path h) (html_nodes lib doc)) doc
          in case html_dump lib doc of
               None \<Rightarrow> Inl UndefinedBehaviour
             | Some s \<Rightarrow>
                 Inr (set_header ''Content-Length'' (size_string (c_str s))
                   (set_header ''Transfer-Encoding'' ''identity''
                     (response\<lparr>rbody_of := c_str s\<rparr>))))"

subsection \<open>Reading the response\<close>

fun read_loop :: "rs_machine \<Rightarrow> string option list \<Rightarrow> response_builder option" where
  "read_loop s [] = None"
| "read_loop s (None # reads) = None"
| "read_loop s (Some data # reads) =
     (case rs_parse s data of
        (Good, s', rest) \<Rightarrow> Some (snd s')
      | (Bad, s', rest) \<Rightarrow> None
      | (Indeterminate, s', rest) \<Rightarrow> read_loop s' reads)"

definition read_response :: "i32 \<Rightarrow> string option list \<Rightarrow> Response option" where
  "read_response junk reads =
     map_option rs_build_response (read_loop (new_response_parser, new_response_builder junk) reads)"

definition get_error_response :: Response where
  "get_error_response = body_response St_bad_gateway (stock_responses St_bad_gateway) ''text/html''"

subsection \<open>Redirects and the whole exchange\<close>

definition redirect_target ::
  "string \<Rightarrow> int \<Rightarrow> string \<Rightarrow> cpp_error + string \<times> string \<times> int" where
  "redirect_target url port redirectLocation =
     (case find_from ''//'' redirectLocation 0 of
        None \<Rightarrow> Inr (redirectLocation, url, port)
      | Some pos \<Rightarrow>
          let there = drop (pos + 2) redirectLocation;
              (uri, there) = (case find_from ''/'' there 0 of
                 None \<Rightarrow> (''/'', there) | Some p \<Rightarrow> (drop p there, take p there))
          in case find_from '':'' there 0 of
               None \<Rightarrow> Inr (uri, there, 80)
             | Some p \<Rightarrow> and_then (stoi 10 (drop (p + 1) there)) (\<lambda>n. Inr (uri, take p there, n)))"

record 'w network =
  exchange :: "'w \<Rightarrow> string \<Rightarrow> string \<Rightarrow> string \<Rightarrow> (cpp_error + string option list) \<times> 'w"
  initial_contentsize :: "'w \<Rightarrow> i32"

definition deliver ::
  "('d, 'e) html_lib \<Rightarrow> proxy_request_handler \<Rightarrow> Response \<Rightarrow> cpp_error + Response" where
  "deliver lib h response =
     (let (contentType, hs) = map_index ''Content-Type'' (rheaders_of response);
          response = response\<lparr>rheaders_of := hs\<rparr>
      in if contains_str contentType ''text/html'' then handle_html lib h response else Inr response)"

fun proxy_request ::
  "nat \<Rightarrow> 'w network \<Rightarrow> ('d, 'e) html_lib \<Rightarrow> proxy_request_handler \<Rightarrow> Request \<Rightarrow> string \<Rightarrow> string \<Rightarrow> int
   \<Rightarrow> 'w \<Rightarrow> ((cpp_error + Response) \<times> 'w) option" where
  "proxy_request 0 net lib h request uri url port w = None"
| "proxy_request (Suc fuel) net lib h request uri url port w =
     (case exchange net w url (to_string (server_port_num h))
             (proxy_build_request_string (proxied_request request uri url port)) of
        (Inl e, w') \<Rightarrow> Some (Inl e, w')
      | (Inr reads, w') \<Rightarrow>
          (case read_response (initial_contentsize net w') reads of
             None \<Rightarrow> Some (Inr get_error_response, w')
           | Some response \<Rightarrow>
               if code_of response = St_moved_temporarily \<or> code_of response = St_moved_permanently then
                 (case redirect_target url port (fst (map_index ''Location'' (rheaders_of response))) of
                    Inl e \<Rightarrow> Some (Inl e, w')
                  | Inr (uri', url', port') \<Rightarrow> proxy_request fuel net lib h request uri' url' port' w')
               else Some (deliver lib h response, w')))"

definition forwarded_uri :: "proxy_request_handler \<Rightarrow> string \<Rightarrow> cpp_error + string" where
  "forwarded_uri h request_uri =
     and_then (substr_from request_uri (length (proxy_client_location_path h))) (\<lambda>rest.
       let uri = server_location_path h @ rest in Inr (if uri = [] then ''/'' else uri))"

definition proxy_handle_request ::
  "nat \<Rightarrow> 'w network \<Rightarrow> ('d, 'e) html_lib \<Rightarrow> proxy_request_handler \<Rightarrow> Request \<Rightarrow> 'w
   \<Rightarrow> ((cpp_error + Response) \<times> 'w) option" where
  "proxy_handle_request fuel net lib h request w =
     (case forwarded_uri h (uri_of request) of
        Inl e \<Rightarrow> Some (Inl e, w)
      | Inr uri \<Rightarrow> proxy_request fuel net lib h request uri (server_url h) (server_port_num h) w)"

end
