(* ===== verification/ProxyProperties.thy ===== *)
theory ProxyProperties
  imports ProxyHandler
begin

text \<open>
  The properties of the proxy: what it sends to the other server, how it reads the answer, where it goes on a redirect and
  when it stops, and what it makes of the links and the headers of the answer.
\<close>

subsection \<open>The request sent on\<close>

lemma declared_length_skip_entry:
  "\<not> is_content_length h \<Longrightarrow> declared_length (hs @ h # ks) = declared_length (hs @ ks)"
  by (simp add: declared_length_def)

lemma declared_from_put:
  "\<not> strcasecmp_eq k ''Content-Length'' \<Longrightarrow>
   declared_from n (map header_of_entry (map_put k v m)) = declared_from n (map header_of_entry m)"
proof (induction k v m arbitrary: n rule: map_put.induct)
  case (1 k v)
  then show ?case by (simp add: declared_from_def header_of_entry_def is_content_length_def)
next
  case (2 k v k' v' m)
  have cons: "declared_from n (map header_of_entry ((k'', v'') # es)) =
      declared_from (declared_from n [header_of_entry (k'', v'')]) (map header_of_entry es)" for n k'' v'' es
    by (simp add: declared_from_def)
  have same: "declared_from n [header_of_entry (k, v'')] = n" for n v''
    using "2.prems" by (simp add: declared_from_def header_of_entry_def is_content_length_def)
  consider "k = k'" | "k \<noteq> k'" "k < k'" | "k \<noteq> k'" "\<not> k < k'" by blast
  then show ?case
  proof cases
    case 1
    then show ?thesis using "2.prems" by (simp add: declared_from_def header_of_entry_def is_content_length_def)
  next
    case 2
    then show ?thesis by (simp only: map_put.simps cons if_True if_False same)
  next
    case 3
    then show ?thesis using "2.IH" "2.prems" by (simp only: map_put.simps cons if_False not_False_eq_True)
  qed
qed

lemma map_put_all: "P (k, v) \<Longrightarrow> \<forall>kv\<in>set m. P kv \<Longrightarrow> \<forall>kv\<in>set (map_put k v m). P kv"
  by (induction k v m rule: map_put.induct) auto

lemma proxy_method_name:
  assumes "method_of request = Some m"
  obtains name where "token name" "method_of_name junk name = Some m" "proxy_method (Some m) = name @ '' ''"
  using that [of "''GET''"] that [of "''POST''"] that [of "''DELETE''"] that [of "''HEAD''"] that [of "''PUT''"]
    that [of "''CONNECT''"] that [of "''OPTIONS''"] that [of "''TRACE''"]
  by (cases m) (simp_all add: token_method method_of_name_def proxy_method_def)

lemma proxy_headers:
  "token ''Host''" "token ''Accept-Encoding''" "value_text ''gzip, identity''"
  "\<not> strcasecmp_eq ''Host'' ''Content-Length''" "\<not> strcasecmp_eq ''Accept-Encoding'' ''Content-Length''"
  by (simp_all add: text_eval name_eval)

lemma to_string_value_text: "value_text (to_string i)"
  by (auto simp: to_string_def dec_string_value_text value_text_def text_char_def is_ctl_def char_int_def
      dest: dec_string_value_text [unfolded value_text_def text_char_def, rule_format])

text \<open>
  C25. What the proxy writes to the other server is accepted by the program's own request parser, and is the client's request
  with the URI replaced, the header \<open>Host\<close> set to the server and \<open>Accept-Encoding\<close> to what the proxy can decode.
\<close>

theorem proxied_request_reparsed:
  assumes "method_of request = Some m" "uri_text uri" "value_text url"
    and "version_of request = ''HTTP/'' @ dec_string major @ ''.'' @ dec_string minor"
    and "in_int_range (int major)" "in_int_range (int minor)"
    and "map_ok (headers_of request)" "\<forall>kv\<in>set (headers_of request). header_accepted (header_of_entry kv)"
    and "int (length (body_of request)) = sint (declared_length (map header_of_entry (headers_of request)))"
  shows "\<exists>p b. rq_parse (new_request_parser, new_request_builder)
      (proxy_build_request_string (proxied_request request uri url port)) = (Good, (p, b), [])
    \<and> rq_build_request junk b = request\<lparr>uri_of := uri, headers_of :=
         map_put ''Accept-Encoding'' ''gzip, identity'' (map_put ''Host'' (url @ '':'' @ to_string port) (headers_of request))\<rparr>"
proof -
  let ?r = "proxied_request request uri url port"
  obtain name where name: "token name" "method_of_name junk name = Some m" "proxy_method (Some m) = name @ '' ''"
    using proxy_method_name [OF assms(1)] .
  have host: "value_text (url @ '':'' @ to_string port)"
    using assms(3) to_string_value_text [of port] text_char_facts(5) unfolding value_text_def by auto
  have "header_accepted (header_of_entry (''Host'', url @ '':'' @ to_string port))"
    "header_accepted (header_of_entry (''Accept-Encoding'', ''gzip, identity''))"
    by (simp_all add: header_accepted_def header_ok_def header_of_entry_def is_content_length_def proxy_headers host [simplified])
  then have accepted: "\<forall>kv\<in>set (headers_of ?r). header_accepted (header_of_entry kv)"
    using assms(8) unfolding proxied_request_def Request.simps by (intro map_put_all)
  have "declared_length (map header_of_entry (headers_of ?r)) =
      declared_length (map header_of_entry (headers_of request))"
    by (simp add: proxied_request_def declared_from_put proxy_headers flip: declared_from_0)
  moreover have "map_ok (headers_of ?r)" by (simp add: proxied_request_def map_ok_put assms(7))
  moreover have "proxy_build_request_string ?r = (name @ '' '') @ request_rest ?r"
    by (simp add: proxy_build_request_string_def proxied_request_def assms(1) name(3))
  ultimately have "\<exists>p b. rq_parse (new_request_parser, new_request_builder) (proxy_build_request_string ?r) =
      (Good, (p, b), []) \<and> rq_build_request junk b = ?r"
    using request_text_reparsed [OF name(1), of junk ?r major minor] name(2) assms accepted
    by (simp add: proxied_request_def)
  moreover have "request\<lparr>uri_of := uri, headers_of :=
      map_put ''Accept-Encoding'' ''gzip, identity'' (map_put ''Host'' (url @ '':'' @ to_string port) (headers_of request))\<rparr> = ?r"
    by (cases request) (simp add: proxied_request_def)
  ultimately show ?thesis by simp
qed

theorem proxied_request_reparsed_witness:
  "\<exists>p b. rq_parse (new_request_parser, new_request_builder)
      (proxy_build_request_string (proxied_request \<lparr>method_of = Some PUT, uri_of = ''/p/x'',
         version_of = ''HTTP/'' @ dec_string 1 @ ''.'' @ dec_string 0, headers_of = [], body_of = []\<rparr> ''/x'' ''example.org'' 80))
      = (Good, (p, b), [])
    \<and> rq_build_request None b = \<lparr>method_of = Some PUT, uri_of = ''/p/x'',
         version_of = ''HTTP/'' @ dec_string 1 @ ''.'' @ dec_string 0, headers_of = [], body_of = []\<rparr>
       \<lparr>uri_of := ''/x'', headers_of := map_put ''Accept-Encoding'' ''gzip, identity''
         (map_put ''Host'' (''example.org'' @ '':'' @ to_string 80) (headers_of \<lparr>method_of = Some PUT, uri_of = ''/p/x'',
         version_of = ''HTTP/'' @ dec_string 1 @ ''.'' @ dec_string 0, headers_of = [], body_of = []\<rparr>))\<rparr>"
  by (rule proxied_request_reparsed [where major = 1 and minor = 0 and m = PUT])
    (simp_all add: text_eval in_int_range_def INT_MIN_def INT_MAX_def)

subsection \<open>Reading the answer\<close>

lemma rs_parse_feed: "feed rs_consume s xs = Some t \<Longrightarrow> xs \<noteq> [] \<Longrightarrow> rs_parse s xs = (Indeterminate, t, [])"
  using rs_parse_append [of s xs t "[]"] by (simp add: rs_parse_def)

lemma read_loop_cut:
  assumes "rs_parse s message = (Good, t, [])" "feed rs_consume s (butlast message) = Some u"
    and "concat reads = message" "[] \<notin> set reads" "reads \<noteq> []"
  shows "read_loop s (map Some reads @ later) = Some (snd t)"
  using assms
proof (induction reads arbitrary: s message)
  case Nil
  then show ?case by simp
next
  case (Cons x reads)
  show ?case
  proof (cases "reads = []")
    case True
    with Cons.prems show ?thesis by simp
  next
    case False
    then obtain y where y: "concat reads \<noteq> []" using Cons.prems(4) by (cases reads) auto
    have "butlast message = x @ butlast (concat reads)"
      using Cons.prems(3) y by (auto simp: butlast_append)
    then obtain s' where s': "feed rs_consume s x = Some s'" "feed rs_consume s' (butlast (concat reads)) = Some u"
      using Cons.prems(2) by (auto simp: feed_append split: option.splits)
    have "x \<noteq> []" using Cons.prems(4) by auto
    then have "rs_parse s x = (Indeterminate, s', [])" using rs_parse_feed [OF s'(1)] by simp
    moreover have "rs_parse s' (concat reads) = (Good, t, [])"
      using rs_parse_append [OF s'(1), of "concat reads"] Cons.prems(1,3) by simp
    ultimately show ?thesis
      using Cons.IH [of s' "concat reads"] s'(2) Cons.prems(4) False by simp
  qed
qed

lemma read_response_wire:
  assumes "framed r" "unchunked r" "int (length (rbody_of r)) \<le> INT_MAX"
    and "concat reads = wire r" "[] \<notin> set reads"
  shows "read_response j (map Some reads @ later) = Some (r\<lparr>code_of := wire_status (code_of r)\<rparr>)"
proof -
  obtain st b u where w: "rs_parse (new_response_parser, new_response_builder j) (wire r) = (Good, (st, b), [])"
      "rs_build_response b = r\<lparr>code_of := wire_status (code_of r)\<rparr>"
      "feed rs_consume (new_response_parser, new_response_builder j) (butlast (wire r)) = Some u"
    using wire_read_back [OF assms(1-3), of j] by blast
  have "reads \<noteq> []" using assms(4) by (auto simp: wire_eq)
  with read_loop_cut [OF w(1,3) assms(4,5)] w(2) show ?thesis by (simp add: read_response_def)
qed



abbreviation example_proxy :: proxy_request_handler where
  "example_proxy \<equiv> \<lparr>proxy_client_location_path = ''/p'', server_url = ''example.org'', server_location_path = [],
     server_port_num = 80\<rparr>"
abbreviation plain_hi :: Response where
  "plain_hi \<equiv> body_response St_ok ''hi'' ''text/plain''"
abbreviation constant_network :: "Response \<Rightarrow> unit network" where
  "constant_network r \<equiv> \<lparr>exchange = (\<lambda>w host service bytes. (Inr (map Some [wire r] @ []), w)), initial_contentsize = (\<lambda>w. 3)\<rparr>"
abbreviation no_html :: "(unit, unit) html_lib" where
  "no_html \<equiv> \<lparr>gunzip = (\<lambda>_. None), html_read = (\<lambda>_ _. ()), html_nodes = (\<lambda>_. []), html_update = (\<lambda>_ d. d),
     html_dump = (\<lambda>_. None), is_element = (\<lambda>_. False), get_prop = (\<lambda>_ _. None), set_prop = (\<lambda>_ _ e. e)\<rparr>"
abbreviation example_request :: Request where
  "example_request \<equiv> \<lparr>method_of = Some GET, uri_of = ''/p/x'', version_of = ''HTTP/1.0'', headers_of = [], body_of = []\<rparr>"


lemma wire_not_empty: "wire r \<noteq> []"
  by (simp add: wire_eq)


subsection \<open>Redirects\<close>






lemma redirected_for_ever:
  assumes "framed r" "unchunked r" "int (length (rbody_of r)) \<le> INT_MAX"
    and "code_of r = St_moved_temporarily"
    and "map_of (rheaders_of r) ''Location'' = Some l" "\<not> contains_str l ''//''"
    and "\<forall>w host service bytes. exchange net w host service bytes = (Inr (map Some [wire r] @ later), w)"
  shows "proxy_request fuel net lib h request uri url port w = None"
proof -
  have "r\<lparr>code_of := wire_status (code_of r)\<rparr> = r" using assms(4) by (simp add: wire_status_def)
  then have read: "read_response j (map Some [wire r] @ later) = Some r" for j
    using read_response_wire [OF assms(1-3), of "[wire r]" j later] wire_not_empty [of r] by auto
  show ?thesis
  proof (induction fuel arbitrary: uri url port)
    case 0
    show ?case by simp
  next
    case (Suc fuel)
    have "redirect_target url port l = Inr (l, url, port)"
      using assms(6) by (simp add: redirect_target_def contains_str_def)
    moreover have "fst (map_index ''Location'' (rheaders_of r)) = l" using assms(5) by (simp add: map_index_def)
    ultimately show ?case
      using Suc.IH assms(4,7) read [of "initial_contentsize net w"] by simp
  qed
qed

text \<open>
  C36. A server that answers every request with the same relative redirect keeps the proxy busy for ever: no number of
  requests is enough for an answer.
\<close>

theorem proxy_redirect_loop:
  assumes "framed r" "unchunked r" "int (length (rbody_of r)) \<le> INT_MAX"
    and "code_of r = St_moved_temporarily"
    and "map_of (rheaders_of r) ''Location'' = Some l" "\<not> contains_str l ''//''"
    and "\<forall>w host service bytes. exchange net w host service bytes = (Inr (map Some [wire r] @ later), w)"
  shows "proxy_request fuel net lib h request uri url port w = None"
  by (rule redirected_for_ever [OF assms])

abbreviation redirect_y :: Response where
  "redirect_y \<equiv> \<lparr>code_of = St_moved_temporarily, rheaders_of = [(''Content-Length'', ''0''), (''Location'', ''/y'')],
     rbody_of = []\<rparr>"

lemma redirect_y_framed: "framed redirect_y" "unchunked redirect_y"
proof -
  have "size_string [] = ''0''" by code_simp
  then show "framed redirect_y"
    by (simp add: framed_def map_ok_def header_ok_def header_of_entry_def token_Content_Length token_Location
        value_text_def text_char_def is_ctl_def char_int_def name_eval)
  show "unchunked redirect_y"
    by (simp add: unchunked_def header_of_entry_def name_eval)
qed

theorem proxy_redirect_loop_witness:
  "proxy_request 1000 (constant_network redirect_y) no_html example_proxy example_request ''/x'' ''example.org'' 80 () = None"
proof (rule proxy_redirect_loop [OF redirect_y_framed])
  have "find_aux ''//'' ''/y'' 0 = None" by simp
  then show "\<not> contains_str ''/y'' ''//''" by (simp add: contains_str_def find_from_def)
qed (simp_all add: INT_MAX_def)

text \<open>
  The port of a redirect is not used: whatever the answers say, every connection of the proxy is made to the port of the
  configuration. Two networks that agree on that port give the same result, however they differ on every other one.
\<close>

theorem proxy_port_fixed:
  assumes "\<forall>w host bytes. exchange net w host (to_string (server_port_num h)) bytes =
      exchange net' w host (to_string (server_port_num h)) bytes"
    and "initial_contentsize net = initial_contentsize net'"
  shows "proxy_request fuel net lib h request uri url port w = proxy_request fuel net' lib h request uri url port w"
proof (induction fuel arbitrary: uri url port w)
  case 0
  show ?case by simp
next
  case (Suc fuel)
  show ?case by (simp only: proxy_request.simps assms Suc.IH)
qed

theorem proxy_port_fixed_witness:
  "proxy_request 5 (constant_network plain_hi) no_html example_proxy example_request ''/x'' ''example.org'' 80 () =
   proxy_request 5 \<lparr>exchange = (\<lambda>w host service bytes. if service = to_string (server_port_num example_proxy)
       then (Inr (map Some [wire plain_hi] @ []), w) else (Inl SystemError, w)), initial_contentsize = (\<lambda>w. 3)\<rparr>
     no_html example_proxy example_request ''/x'' ''example.org'' 80 ()"
  by (rule proxy_port_fixed) simp_all

subsection \<open>Links and headers\<close>



text \<open>
  A chunked answer that is not HTML is delivered with its body joined but with the header \<open>Transfer-Encoding: chunked\<close> as it
  was: what the client gets is not a chunked message, and the program's own response parser rejects it.
\<close>

theorem chunked_passed_on:
  assumes "\<forall>kv\<in>set (rheaders_of r). header_accepted (header_of_entry kv)"
    and "map_of (rheaders_of r) ''Transfer-Encoding'' = Some ''chunked''"
    and "map_of (rheaders_of r) ''Content-Type'' = Some mime" "\<not> contains_str mime ''text/html''"
    and "rbody_of r = c # content" "\<not> is_hex (char_int c)"
  shows "deliver lib h r = Inr r \<and> fst (rs_parse (new_response_parser, new_response_builder j) (wire r)) = Bad"
proof
  show "deliver lib h r = Inr r" using assms(3,4) by (simp add: deliver_def map_index_def)
  let ?hs = "map header_of_entry (rheaders_of r)"
  obtain code reason where line: "to_buffer (code_of r) = status_line CHR ''1'' CHR ''0'' code reason"
    "line_ok CHR ''1'' CHR ''0'' code reason"
    by (rule to_buffer_line)
  have accepted: "\<forall>h\<in>set ?hs. header_accepted h" using assms(1) by simp
  define b where "b = fold add_header ?hs (head_builder j CHR ''1'' CHR ''0'' code reason)"
  have "header_of_entry (''Transfer-Encoding'', ''chunked'') \<in> set ?hs"
    using map_of_SomeD [OF assms(2)] by auto
  moreover have "is_chunked (header_of_entry (''Transfer-Encoding'', ''chunked''))"
    by (simp add: header_of_entry_def name_eval)
  ultimately have "sb_chunked b" unfolding b_def by (auto simp: add_headers)
  moreover have "rs_parse (new_response_parser, new_response_builder j) (wire r) =
      rs_parse (Rs_header_line_start, b) (crlf @ c # content)"
    using rs_parse_head [OF line(2) accepted, of j "rbody_of r"] by (simp add: wire_eq line(1) b_def assms(5))
  ultimately show "fst (rs_parse (new_response_parser, new_response_builder j) (wire r)) = Bad"
    using assms(6) by (simp add: rs_parse_def rs_eval)
qed

abbreviation chunked_text :: Response where
  "chunked_text \<equiv> \<lparr>code_of = St_ok, rheaders_of = [(''Content-Type'', ''text/plain''), (''Transfer-Encoding'', ''chunked'')],
     rbody_of = ''hi''\<rparr>"

theorem chunked_passed_on_witness:
  "deliver no_html example_proxy chunked_text = Inr chunked_text
    \<and> fst (rs_parse (new_response_parser, new_response_builder 0) (wire chunked_text)) = Bad"
proof (rule chunked_passed_on [where c = "CHR ''h''" and content = "''i''"])
  have "find_aux ''text/html'' ''text/plain'' 0 = None" by simp
  then show "\<not> contains_str ''text/plain'' ''text/html''" by (simp add: contains_str_def find_from_def)
  show "\<forall>kv\<in>set (rheaders_of chunked_text). header_accepted (header_of_entry kv)"
    using token_Content_Type mime_value_text
    by (simp add: header_accepted_def header_ok_def header_of_entry_def text_eval name_eval)
qed (simp_all add: is_hex_def is_digit_def char_int_def)

text \<open>
  The headers of the answer are looked up by their exact name. An HTML answer whose header is spelled otherwise, such as
  \<open>content-type\<close>, is not rewritten, and an empty header \<open>Content-Type\<close> is added to it.
\<close>

theorem content_type_exact:
  assumes "map_of (rheaders_of r) ''Content-Type'' = None"
  shows "deliver lib h r = Inr (set_header ''Content-Type'' [] r)"
  using assms by (simp add: deliver_def map_index_def contains_str_def find_from_def set_header_def)

theorem content_type_exact_witness:
  "deliver no_html example_proxy (plain_hi\<lparr>rheaders_of := [(''content-type'', ''text/html'')]\<rparr>) =
    Inr (set_header ''Content-Type'' [] (plain_hi\<lparr>rheaders_of := [(''content-type'', ''text/html'')]\<rparr>))"
  by (rule content_type_exact) simp

text \<open>
  C30. A rewritten HTML answer is marked as neither chunked nor compressed, and its length is that of the new body.
\<close>

theorem html_answer:
  assumes "handle_html lib h r = Inr r'"
  shows "map_of (rheaders_of r') ''Content-Length'' = Some (size_string (rbody_of r'))
    \<and> map_of (rheaders_of r') ''Transfer-Encoding'' = Some ''identity''
    \<and> map_of (rheaders_of r') ''Content-Encoding'' \<in> {None, Some ''identity''}
    \<and> code_of r' = code_of r"
  using assms
  by (auto simp: handle_html_def and_then_Inr Let_def split: option.splits if_splits)

abbreviation dump_p :: "(unit, unit) html_lib" where
  "dump_p \<equiv> no_html\<lparr>html_dump := (\<lambda>_. Some ''<p>'')\<rparr>"
abbreviation rewritten_hi :: Response where
  "rewritten_hi \<equiv> set_header ''Content-Length'' (size_string ''<p>'')
     (set_header ''Transfer-Encoding'' ''identity'' (plain_hi\<lparr>rbody_of := ''<p>''\<rparr>))"

theorem html_answer_witness:
  "map_of (rheaders_of rewritten_hi) ''Content-Length'' = Some (size_string (rbody_of rewritten_hi))
    \<and> map_of (rheaders_of rewritten_hi) ''Transfer-Encoding'' = Some ''identity''
    \<and> map_of (rheaders_of rewritten_hi) ''Content-Encoding'' \<in> {None, Some ''identity''}
    \<and> code_of rewritten_hi = code_of plain_hi"
  by (rule html_answer [where lib = dump_p and h = example_proxy]) (simp add: handle_html_def c_str_def)


end
