(* ===== verification/Dispatcher.thy ===== *)
theory Dispatcher
  imports ProxyHandler BlogHandler
begin

text \<open>
  \<open>request_dispatcher\<close> (src/request_dispatcher.cc): the table from locations to handlers made from the configuration,
  and the choice of the handler for a URI; and the part of \<open>session::handle_read\<close> that calls the handler and records the
  request, \<open>serve_request\<close>.

  A handler object is reachable through one entry of the table only, so the table holds the objects themselves; an entry
  is \<open>None\<close> for a null pointer, which \<open>operator[]\<close> leaves behind when it looks for a key that is not there.
  The order in which the code iterates over a hash container is a parameter \<open>it\<close>. \<open>environment\<close> collects what the handlers
  call: the file system, the database, the network and the HTML library; \<open>'w\<close> is the state of the outside world. Each blog
  handler has the state of its own database connection.
\<close>

subsection \<open>Handlers\<close>

datatype 'c handler =
    EchoHandler echo_request_handler
  | StaticHandler static_request_handler
  | StatusHandler status_request_handler
  | ProxyHandler proxy_request_handler
  | RedirectHandler redirect_request_handler
  | HealthHandler health_request_handler
  | UploadFormHandler upload_form_request_handler
  | BlogHandler "'c blog_handler"
  | Error404Handler error_404_request_handler

record ('c, 'w, 'd, 'e) environment =
  files :: "string \<Rightarrow> string option"
  databases :: "'c database_ops"
  servers :: "'w network"
  html :: "('d, 'e) html_lib"
  redirect_limit :: nat

text \<open>The virtual call \<open>handle_request\<close>; \<open>None\<close> when a chain of redirects is longer than \<open>redirect_limit\<close>.\<close>

definition pure :: "'c handler \<Rightarrow> 'w \<Rightarrow> Response \<Rightarrow> ((cpp_error + Response \<times> 'c handler) \<times> 'w) option" where
  "pure h w r = Some (Inr (r, h), w)"

fun handle_request ::
  "('c, 'w, 'd, 'e) environment \<Rightarrow> 'c handler \<Rightarrow> Request \<Rightarrow> 'w
   \<Rightarrow> ((cpp_error + Response \<times> 'c handler) \<times> 'w) option" where
  "handle_request env (EchoHandler h) request w = pure (EchoHandler h) w (echo_handle_request h request)"
| "handle_request env (StaticHandler h) request w =
     pure (StaticHandler h) w (static_handle_request (files env) h request)"
| "handle_request env (StatusHandler h) request w = pure (StatusHandler h) w (status_handle_request h request)"
| "handle_request env (ProxyHandler h) request w =
     map_option (\<lambda>(result, w'). (and_then result (\<lambda>r. Inr (r, ProxyHandler h)), w'))
       (proxy_handle_request (redirect_limit env) (servers env) (html env) h request w)"
| "handle_request env (RedirectHandler h) request w = pure (RedirectHandler h) w (redirect_handle_request h request)"
| "handle_request env (HealthHandler h) request w = pure (HealthHandler h) w (health_handle_request h request)"
| "handle_request env (UploadFormHandler h) request w =
     pure (UploadFormHandler h) w (upload_form_handle_request h request)"
| "handle_request env (BlogHandler h) request w =
     Some (and_then (blog_handle_request (databases env) h request) (\<lambda>(r, h'). Inr (r, BlogHandler h')), w)"
| "handle_request env (Error404Handler h) request w = pure (Error404Handler h) w (error_404_handle_request h request)"

subsection \<open>The table\<close>

record 'c request_dispatcher =
  config_of :: NginxConfig                               \<comment> \<open>\<open>config_\<close>\<close>
  table :: "(string \<times> 'c handler option) list"           \<comment> \<open>\<open>dispatcher\<close>\<close>
  status_handler_enabled :: bool
  error_handler :: "'c handler"

text \<open>A loop over the locations of one type: initialise a handler for each and put it into the table.\<close>

fun register ::
  "(string \<Rightarrow> cpp_error + 'c handler) \<Rightarrow> string list \<Rightarrow> 'c request_dispatcher \<Rightarrow> cpp_error + 'c request_dispatcher" where
  "register init [] rd = Inr rd"
| "register init (l # ls) rd =
     and_then (init l) (\<lambda>h. register init ls (rd\<lparr>table := umap_put l (Some h) (table rd)\<rparr>))"

definition register_type ::
  "(string list \<Rightarrow> string list) \<Rightarrow> (string \<Rightarrow> 'c) \<Rightarrow> string \<Rightarrow> 'c request_dispatcher
   \<Rightarrow> cpp_error + 'c request_dispatcher" where
  "register_type it connect_db ty rd =
     (let cfg = config_of rd in
      if ty = ''EchoHandler'' then
        register (\<lambda>l. Inr (EchoHandler (echo_Init l cfg))) (it (echo_locations cfg)) rd
      else if ty = ''StaticHandler'' then
        register (\<lambda>l. and_then (static_Init l cfg) (\<lambda>h. Inr (StaticHandler h))) (it (map fst (static_locations cfg))) rd
      else if ty = ''StatusHandler'' then
        register (\<lambda>l. Inr (StatusHandler (status_Init it l cfg))) (it (status_locations cfg))
          (rd\<lparr>status_handler_enabled := status_handler_enabled rd \<or> it (status_locations cfg) \<noteq> []\<rparr>)
      else if ty = ''ProxyHandler'' then
        register (\<lambda>l. and_then (proxy_Init l cfg) (\<lambda>h. Inr (ProxyHandler h))) (it (map fst (proxy_locations cfg))) rd
      else if ty = ''RedirectHandler'' then
        register (\<lambda>l. and_then (redirect_Init l cfg) (\<lambda>h. Inr (RedirectHandler h)))
          (it (map fst (redirect_locations cfg))) rd
      else if ty = ''HealthHandler'' then
        register (\<lambda>l. Inr (HealthHandler (health_Init l cfg))) (it (health_locations cfg)) rd
      else if ty = ''UploadFormHandler'' then
        register (\<lambda>l. Inr (UploadFormHandler (upload_form_Init l cfg))) (it (upload_form_locations cfg)) rd
      else if ty = ''BlogHandler'' then
        register (\<lambda>l. and_then (blog_Init connect_db l cfg) (\<lambda>h. Inr (BlogHandler h))) (it (map fst (blog_ips cfg))) rd
      else Inr rd)"

fun register_types ::
  "(string list \<Rightarrow> string list) \<Rightarrow> (string \<Rightarrow> 'c) \<Rightarrow> string list \<Rightarrow> 'c request_dispatcher
   \<Rightarrow> cpp_error + 'c request_dispatcher" where
  "register_types it connect_db [] rd = Inr rd"
| "register_types it connect_db (ty # tys) rd =
     and_then (register_type it connect_db ty rd) (register_types it connect_db tys)"

definition empty_dispatcher :: "NginxConfig \<Rightarrow> 'c request_dispatcher" where
  "empty_dispatcher cfg = \<lparr>config_of = cfg, table = [], status_handler_enabled = False,
     error_handler = Error404Handler (error_404_Init ''error_404'' cfg)\<rparr>"

definition create_handler_mapping ::
  "(string list \<Rightarrow> string list) \<Rightarrow> (string \<Rightarrow> 'c) \<Rightarrow> NginxConfig \<Rightarrow> cpp_error + 'c request_dispatcher" where
  "create_handler_mapping it connect_db cfg =
     register_types it connect_db (handler_types cfg) (empty_dispatcher cfg)"

subsection \<open>The choice of the handler\<close>

function longest_prefix_match :: "NginxConfig \<Rightarrow> string \<Rightarrow> string" where
  "longest_prefix_match cfg trimmed_uri =
     (if trimmed_uri \<in> set (map fst (static_locations cfg)) then trimmed_uri
      else case find_last_of CHR ''/'' trimmed_uri of
        None \<Rightarrow> []
      | Some slash_pos \<Rightarrow> longest_prefix_match cfg (take slash_pos trimmed_uri))"
  by pat_completeness auto
termination
  by (relation "measure (\<lambda>(cfg, uri). length uri)") (auto dest: find_last_of_Some)

declare longest_prefix_match.simps [simp del]

text \<open>The key under which the handler is, or \<open>None\<close> for \<open>error_handler_\<close>.\<close>

definition handler_key :: "(string list \<Rightarrow> string list) \<Rightarrow> NginxConfig \<Rightarrow> string \<Rightarrow> string option" where
  "handler_key it cfg request_uri =
     (let uri = unescape_uri request_uri;
          static_path = longest_prefix_match cfg uri
      in if uri \<in> set (echo_locations cfg) then Some uri
         else if static_path \<noteq> [] then Some static_path
         else if uri \<in> set (status_locations cfg) then Some uri
         else if uri \<in> set (map fst (redirect_locations cfg)) then Some uri
         else if uri \<in> set (health_locations cfg) then Some uri
         else if uri \<in> set (upload_form_locations cfg) then Some uri
         else case find (\<lambda>l. take (length l) uri = l) (it (map fst (proxy_locations cfg))) of
             Some l \<Rightarrow> Some l
           | None \<Rightarrow> find (\<lambda>l. take (length l) uri = l) (it (map fst (blog_ips cfg))))"

text \<open>\<open>dispatcher[k]\<close>.\<close>

definition table_index :: "string \<Rightarrow> 'c request_dispatcher \<Rightarrow> 'c handler option \<times> 'c request_dispatcher" where
  "table_index k rd =
     (case map_of (table rd) k of
        Some h \<Rightarrow> (h, rd)
      | None \<Rightarrow> (None, rd\<lparr>table := umap_put k None (table rd)\<rparr>))"

definition get_handler ::
  "(string list \<Rightarrow> string list) \<Rightarrow> string \<Rightarrow> 'c request_dispatcher \<Rightarrow> 'c handler option \<times> 'c request_dispatcher" where
  "get_handler it request_uri rd =
     (case handler_key it (config_of rd) request_uri of
        Some k \<Rightarrow> table_index k rd
      | None \<Rightarrow> (Some (error_handler rd), rd))"

definition get_status_handler ::
  "'c request_dispatcher \<Rightarrow> status_request_handler option \<times> 'c request_dispatcher" where
  "get_status_handler rd =
     (case table_index ''/status'' rd of
        (Some (StatusHandler h), rd') \<Rightarrow> (Some h, rd')
      | (_, rd') \<Rightarrow> (None, rd'))"

subsection \<open>Serving a request\<close>

definition put_handler ::
  "(string list \<Rightarrow> string list) \<Rightarrow> string \<Rightarrow> 'c handler \<Rightarrow> 'c request_dispatcher \<Rightarrow> 'c request_dispatcher" where
  "put_handler it request_uri h rd =
     (case handler_key it (config_of rd) request_uri of
        Some k \<Rightarrow> rd\<lparr>table := umap_put k (Some h) (table rd)\<rparr>
      | None \<Rightarrow> rd\<lparr>error_handler := h\<rparr>)"

definition record_request ::
  "string \<Rightarrow> StatusCode \<Rightarrow> 'c request_dispatcher \<Rightarrow> cpp_error + 'c request_dispatcher" where
  "record_request request_uri status rd =
     (if status_handler_enabled rd then
        (case get_status_handler rd of
           (None, rd') \<Rightarrow> Inl UndefinedBehaviour
         | (Some h, rd') \<Rightarrow>
             Inr (rd'\<lparr>table := umap_put ''/status'' (Some (StatusHandler (record_received_request request_uri status h)))
                        (table rd')\<rparr>))
      else Inr rd)"

definition serve_request ::
  "(string list \<Rightarrow> string list) \<Rightarrow> ('c, 'w, 'd, 'e) environment \<Rightarrow> Request \<Rightarrow> 'c request_dispatcher \<Rightarrow> 'w
   \<Rightarrow> ((cpp_error + Response \<times> 'c request_dispatcher) \<times> 'w) option" where
  "serve_request it env request rd w =
     (case get_handler it (uri_of request) rd of
        (None, rd') \<Rightarrow> Some (Inl UndefinedBehaviour, w)
      | (Some h, rd') \<Rightarrow>
          (case handle_request env h request w of
             None \<Rightarrow> None
           | Some (result, w') \<Rightarrow>
               Some (and_then result (\<lambda>(response, h').
                 and_then (record_request (uri_of request) (code_of response) (put_handler it (uri_of request) h' rd'))
                   (\<lambda>rd''. Inr (response, rd''))), w')))"

end
