(* ===== verification/DispatcherFacts.thy ===== *)
theory DispatcherFacts
  imports Dispatcher ConfigFacts
begin

text \<open>
  What holds of the dispatcher: the table made from a well-formed configuration has a handler for every key the lookup can
  choose (\<open>mapping_table\<close>, \<open>dispatcher_ok\<close>), the keys are locations the URI begins with (\<open>handler_key_located\<close>), and serving
  requests keeps this and changes no handler but the blog handlers and the status handler (\<open>serve_all_ok\<close>, \<open>serve_all_table\<close>).
\<close>

subsection \<open>The longest prefix\<close>

lemma longest_prefix_match_find:
  "longest_prefix_match cfg uri =
   (case find (\<lambda>s. s \<in> set (map fst (static_locations cfg))) (cuts uri) of None \<Rightarrow> [] | Some s \<Rightarrow> s)"
proof (induction cfg uri rule: longest_prefix_match.induct)
  case (1 cfg uri)
  then show ?case
    by (simp add: longest_prefix_match.simps [of cfg uri] cuts.simps [of uri] split: option.split)
qed

subsection \<open>The table\<close>

text \<open>The locations of each type of handler, and what its \<open>Init\<close> makes of one.\<close>

definition locations_of :: "NginxConfig \<Rightarrow> string \<Rightarrow> string list" where
  "locations_of cfg ty =
     (if ty = ''EchoHandler'' then echo_locations cfg
      else if ty = ''StaticHandler'' then map fst (static_locations cfg)
      else if ty = ''StatusHandler'' then status_locations cfg
      else if ty = ''ProxyHandler'' then map fst (proxy_locations cfg)
      else if ty = ''RedirectHandler'' then map fst (redirect_locations cfg)
      else if ty = ''HealthHandler'' then health_locations cfg
      else if ty = ''UploadFormHandler'' then upload_form_locations cfg
      else if ty = ''BlogHandler'' then map fst (blog_ips cfg) else [])"

definition init_handler ::
  "(string list \<Rightarrow> string list) \<Rightarrow> (string \<Rightarrow> 'c) \<Rightarrow> NginxConfig \<Rightarrow> string \<Rightarrow> string \<Rightarrow> cpp_error + 'c handler" where
  "init_handler it connect_db cfg ty l =
     (if ty = ''EchoHandler'' then Inr (EchoHandler (echo_Init l cfg))
      else if ty = ''StaticHandler'' then and_then (static_Init l cfg) (\<lambda>h. Inr (StaticHandler h))
      else if ty = ''StatusHandler'' then Inr (StatusHandler (status_Init it l cfg))
      else if ty = ''ProxyHandler'' then and_then (proxy_Init l cfg) (\<lambda>h. Inr (ProxyHandler h))
      else if ty = ''RedirectHandler'' then and_then (redirect_Init l cfg) (\<lambda>h. Inr (RedirectHandler h))
      else if ty = ''HealthHandler'' then Inr (HealthHandler (health_Init l cfg))
      else if ty = ''UploadFormHandler'' then Inr (UploadFormHandler (upload_form_Init l cfg))
      else and_then (blog_Init connect_db l cfg) (\<lambda>h. Inr (BlogHandler h)))"

lemma iteration_Nil: "iteration it \<Longrightarrow> it [] = []"
  using iterationD(1) [of it "[]"] by simp

lemma register_type_eq:
  assumes "iteration it"
  shows "register_type it connect_db ty rd =
    register (init_handler it connect_db (config_of rd) ty) (it (locations_of (config_of rd) ty))
      (if ty = ''StatusHandler''
       then rd\<lparr>status_handler_enabled := status_handler_enabled rd \<or> it (status_locations (config_of rd)) \<noteq> []\<rparr> else rd)"
  by (simp add: register_type_def Let_def locations_of_def init_handler_def [abs_def] iteration_Nil [OF assms])

lemma register_table:
  "register init ls rd = Inr rd' \<Longrightarrow>
   config_of rd' = config_of rd \<and> error_handler rd' = error_handler rd \<and>
   status_handler_enabled rd' = status_handler_enabled rd \<and>
   (l \<in> set ls \<longrightarrow> (\<exists>h. init l = Inr h \<and> map_of (table rd') l = Some (Some h))) \<and>
   (l \<notin> set ls \<longrightarrow> map_of (table rd') l = map_of (table rd) l)"
proof (induction init ls rd rule: register.induct)
  case (1 init rd)
  then show ?case by simp
next
  case (2 init l' ls rd)
  then obtain h where h: "init l' = Inr h"
      "register init ls (rd\<lparr>table := umap_put l' (Some h) (table rd)\<rparr>) = Inr rd'"
    by (auto simp: and_then_Inr)
  show ?case
    using "2.IH" [OF h(2)] h(1) by (cases "l = l'") auto
qed

lemma distinct_locations: "config_ok cfg \<Longrightarrow> distinct (locations_of cfg ty)"
  by (auto simp: config_ok_def umap_ok_def locations_of_def)

text \<open>One type: its locations are entered, the others are as they were.\<close>

lemma register_type_table:
  assumes "iteration it" "config_ok (config_of rd)" "register_type it connect_db ty rd = Inr rd'"
  shows "config_of rd' = config_of rd \<and> error_handler rd' = error_handler rd"
    and "l \<in> set (locations_of (config_of rd) ty) \<Longrightarrow>
      \<exists>h. init_handler it connect_db (config_of rd) ty l = Inr h \<and> map_of (table rd') l = Some (Some h)"
    and "l \<notin> set (locations_of (config_of rd) ty) \<Longrightarrow> map_of (table rd') l = map_of (table rd) l"
    and "status_handler_enabled rd' \<longleftrightarrow> status_handler_enabled rd \<or>
      ty = ''StatusHandler'' \<and> status_locations (config_of rd) \<noteq> []"
proof -
  let ?rd = "if ty = ''StatusHandler''
    then rd\<lparr>status_handler_enabled := status_handler_enabled rd \<or> it (status_locations (config_of rd)) \<noteq> []\<rparr> else rd"
  have same: "config_of ?rd = config_of rd" "error_handler ?rd = error_handler rd" "table ?rd = table rd"
    by simp_all
  have set_it: "set (it (locations_of (config_of rd) ty)) = set (locations_of (config_of rd) ty)" for ty
    by (rule iterationD(1) [OF assms(1) distinct_locations [OF assms(2)]])
  note all = register_table [OF assms(3) [unfolded register_type_eq [OF assms(1)]], unfolded set_it same]
  show "config_of rd' = config_of rd \<and> error_handler rd' = error_handler rd" using all by blast
  show "\<exists>h. init_handler it connect_db (config_of rd) ty l = Inr h \<and> map_of (table rd') l = Some (Some h)"
    if "l \<in> set (locations_of (config_of rd) ty)" using all [of l] that by blast
  show "map_of (table rd') l = map_of (table rd) l"
    if "l \<notin> set (locations_of (config_of rd) ty)" using all [of l] that by blast
  have "it (status_locations (config_of rd)) \<noteq> [] \<longleftrightarrow> status_locations (config_of rd) \<noteq> []"
    using set_it [of "''StatusHandler''"] by (simp add: locations_of_def) (metis set_empty)
  then show "status_handler_enabled rd' \<longleftrightarrow> status_handler_enabled rd \<or>
      ty = ''StatusHandler'' \<and> status_locations (config_of rd) \<noteq> []"
    using all by auto
qed

text \<open>\<open>entered it connect_db cfg tys l e\<close>: the entry \<open>e\<close> is one that a type in \<open>tys\<close> makes for \<open>l\<close>.\<close>

definition entered ::
  "(string list \<Rightarrow> string list) \<Rightarrow> (string \<Rightarrow> 'c) \<Rightarrow> NginxConfig \<Rightarrow> string list \<Rightarrow> string
   \<Rightarrow> 'c handler option option \<Rightarrow> bool" where
  "entered it connect_db cfg tys l e \<longleftrightarrow>
     (\<exists>ty h. ty \<in> set tys \<and> l \<in> set (locations_of cfg ty) \<and> init_handler it connect_db cfg ty l = Inr h \<and>
       e = Some (Some h))"

lemma enteredI:
  "ty \<in> set tys \<Longrightarrow> l \<in> set (locations_of cfg ty) \<Longrightarrow> init_handler it connect_db cfg ty l = Inr h \<Longrightarrow>
   entered it connect_db cfg tys l (Some (Some h))"
  unfolding entered_def by blast

lemma entered_Cons: "entered it connect_db cfg tys l e \<Longrightarrow> entered it connect_db cfg (ty # tys) l e"
  unfolding entered_def list.set by blast

lemma register_types_table:
  assumes "iteration it"
  shows "register_types it connect_db tys rd = Inr rd' \<Longrightarrow> config_ok (config_of rd) \<Longrightarrow>
    config_of rd' = config_of rd \<and> error_handler rd' = error_handler rd \<and>
    (status_handler_enabled rd' \<longleftrightarrow> status_handler_enabled rd \<or>
      ''StatusHandler'' \<in> set tys \<and> status_locations (config_of rd) \<noteq> []) \<and>
    (if \<exists>ty\<in>set tys. l \<in> set (locations_of (config_of rd) ty)
     then entered it connect_db (config_of rd) tys l (map_of (table rd') l)
     else map_of (table rd') l = map_of (table rd) l)"
proof (induction tys arbitrary: rd)
  case Nil
  then show ?case by simp
next
  case (Cons ty tys)
  obtain rd1 where r1: "register_type it connect_db ty rd = Inr rd1"
    and r2: "register_types it connect_db tys rd1 = Inr rd'"
    using Cons.prems(1) by (auto simp: and_then_Inr)
  note one = register_type_table [OF assms Cons.prems(2) r1]
  note same = one(1) [THEN conjunct1] one(1) [THEN conjunct2]
  note rest = Cons.IH [OF r2, unfolded same, OF Cons.prems(2), unfolded one(4)]
  let ?in = "\<lambda>ty. l \<in> set (locations_of (config_of rd) ty)"
  have "if \<exists>ty'\<in>set (ty # tys). ?in ty'
    then entered it connect_db (config_of rd) (ty # tys) l (map_of (table rd') l)
    else map_of (table rd') l = map_of (table rd) l"
  proof (cases "\<exists>ty'\<in>set tys. ?in ty'")
    case True
    with rest have "entered it connect_db (config_of rd) tys l (map_of (table rd') l)" by simp
    from entered_Cons [OF this, of ty] True show ?thesis by simp
  next
    case False
    with rest have "map_of (table rd') l = map_of (table rd1) l" by simp
    with False one(2,3) [of l] enteredI [of ty "ty # tys" l] show ?thesis by auto
  qed
  with rest show ?case by auto
qed

lemma locations_of_simps [simp]:
  "locations_of cfg ''EchoHandler'' = echo_locations cfg"
  "locations_of cfg ''StaticHandler'' = map fst (static_locations cfg)"
  "locations_of cfg ''StatusHandler'' = status_locations cfg"
  "locations_of cfg ''ProxyHandler'' = map fst (proxy_locations cfg)"
  "locations_of cfg ''RedirectHandler'' = map fst (redirect_locations cfg)"
  "locations_of cfg ''HealthHandler'' = health_locations cfg"
  "locations_of cfg ''UploadFormHandler'' = upload_form_locations cfg"
  "locations_of cfg ''BlogHandler'' = map fst (blog_ips cfg)"
  by (simp_all add: locations_of_def)

definition handler_kinds :: "string list" where
  "handler_kinds = [''EchoHandler'', ''StaticHandler'', ''StatusHandler'', ''ProxyHandler'', ''RedirectHandler'',
     ''HealthHandler'', ''UploadFormHandler'', ''BlogHandler'']"

lemma located_type:
  assumes "l \<in> set (locations_of cfg ty)"
  shows "ty \<in> set handler_kinds"
  by (rule ccontr) (use assms in \<open>simp add: locations_of_def handler_kinds_def\<close>)

lemma listed_type:
  assumes "config_ok cfg" "l \<in> set (locations_of cfg ty)"
  shows "ty \<in> set (handler_types cfg)"
proof -
  have some: "locations_of cfg ty \<noteq> []" using assms(2) by auto
  from located_type [OF assms(2)] show ?thesis unfolding handler_kinds_def list.set
    by (elim insertE emptyE; use some assms(1) in \<open>simp add: config_ok_def\<close>)
qed

lemma mapping_table:
  assumes "iteration it" "config_ok cfg" "create_handler_mapping it connect_db cfg = Inr rd"
  shows "config_of rd = cfg" "error_handler rd = Error404Handler (error_404_Init ''error_404'' cfg)"
    "status_handler_enabled rd \<longleftrightarrow> status_locations cfg \<noteq> []"
    "l \<in> set (locations_of cfg ty) \<Longrightarrow> entered it connect_db cfg (handler_types cfg) l (map_of (table rd) l)"
    "(\<nexists>ty. l \<in> set (locations_of cfg ty)) \<Longrightarrow> map_of (table rd) l = None"
proof -
  have ok: "config_ok (config_of (empty_dispatcher cfg))" and emp: "config_of (empty_dispatcher cfg) = cfg"
      "table (empty_dispatcher cfg) = []" "\<not> status_handler_enabled (empty_dispatcher cfg)"
      "error_handler (empty_dispatcher cfg) = Error404Handler (error_404_Init ''error_404'' cfg)"
    using assms(2) by (simp_all add: empty_dispatcher_def)
  note all = register_types_table [OF assms(1) assms(3) [unfolded create_handler_mapping_def] ok, unfolded emp]
  show "config_of rd = cfg" "error_handler rd = Error404Handler (error_404_Init ''error_404'' cfg)"
    using all by simp_all
  show "status_handler_enabled rd \<longleftrightarrow> status_locations cfg \<noteq> []"
    using all emp(3) assms(2) by (auto simp: config_ok_def)
  show "entered it connect_db cfg (handler_types cfg) l (map_of (table rd) l)" if "l \<in> set (locations_of cfg ty)"
  proof -
    have "\<exists>ty\<in>set (handler_types cfg). l \<in> set (locations_of cfg ty)"
      using that listed_type [OF assms(2) that] by blast
    then show ?thesis using all [of l] by simp
  qed
  show "(\<nexists>ty. l \<in> set (locations_of cfg ty)) \<Longrightarrow> map_of (table rd) l = None"
    using all [of l] by simp
qed

subsection \<open>The lookup\<close>

definition located :: "NginxConfig \<Rightarrow> string \<Rightarrow> bool" where
  "located cfg l \<longleftrightarrow> (\<exists>ty. l \<in> set (locations_of cfg ty))"

lemma locatedI:
  "l \<in> set (echo_locations cfg) \<Longrightarrow> located cfg l"
  "l \<in> fst ` set (static_locations cfg) \<Longrightarrow> located cfg l"
  "l \<in> set (status_locations cfg) \<Longrightarrow> located cfg l"
  "l \<in> fst ` set (proxy_locations cfg) \<Longrightarrow> located cfg l"
  "l \<in> fst ` set (redirect_locations cfg) \<Longrightarrow> located cfg l"
  "l \<in> set (health_locations cfg) \<Longrightarrow> located cfg l"
  "l \<in> set (upload_form_locations cfg) \<Longrightarrow> located cfg l"
  "l \<in> fst ` set (blog_ips cfg) \<Longrightarrow> located cfg l"
  unfolding located_def
  by (rule exI [of _ "''EchoHandler''"], simp, rule exI [of _ "''StaticHandler''"], simp,
      rule exI [of _ "''StatusHandler''"], simp, rule exI [of _ "''ProxyHandler''"], simp,
      rule exI [of _ "''RedirectHandler''"], simp, rule exI [of _ "''HealthHandler''"], simp,
      rule exI [of _ "''UploadFormHandler''"], simp, rule exI [of _ "''BlogHandler''"], simp)

lemma longest_prefix_match_static:
  assumes "longest_prefix_match cfg uri = s" "s \<noteq> []"
  shows "s \<in> fst ` set (static_locations cfg)" "path_prefix s uri"
proof -
  from assms have "find (\<lambda>s. s \<in> set (map fst (static_locations cfg))) (cuts uri) = Some s"
    by (simp add: longest_prefix_match_find split: option.splits)
  from find_cuts(1,2) [OF this] show "s \<in> fst ` set (static_locations cfg)" "path_prefix s uri" by simp_all
qed

lemma find_SomeD: "find P xs = Some x \<Longrightarrow> x \<in> set xs \<and> P x"
  by (induction xs) (auto split: if_splits)

lemma chosen_key:
  "(if a then Some u else if s \<noteq> [] then Some s else if b then Some u else if c then Some u else if d then Some u
    else if e then Some u else case x of Some l \<Rightarrow> Some l | None \<Rightarrow> y) = Some k \<Longrightarrow>
   s \<noteq> [] \<and> k = s \<or> k = u \<and> (a \<or> b \<or> c \<or> d \<or> e) \<or> x = Some k \<or> y = Some k"
  by (auto split: if_splits option.splits)

text \<open>Every key chosen is a location of the configuration, and the decoded URI begins with it.\<close>

lemma handler_key_located:
  assumes "iteration it" "config_ok cfg" "handler_key it cfg u = Some k"
  shows "located cfg k" "prefix k (unescape_uri u)"
proof -
  let ?uri = "unescape_uri u"
  let ?starts = "\<lambda>l. take (length l) ?uri = l"
  have it: "set (it (map fst (proxy_locations cfg))) = fst ` set (proxy_locations cfg)"
      "set (it (map fst (blog_ips cfg))) = fst ` set (blog_ips cfg)"
    using assms(2) iterationD(1) [OF assms(1), of "map fst (proxy_locations cfg)"]
      iterationD(1) [OF assms(1), of "map fst (blog_ips cfg)"]
    by (simp_all add: config_ok_def umap_ok_def)
  have pre: "prefix k ?uri" if "?starts k" using that take_is_prefix [of "length k" ?uri] by simp
  note key = chosen_key [OF assms(3) [unfolded handler_key_def Let_def]]
  consider (static) "longest_prefix_match cfg ?uri \<noteq> []" "k = longest_prefix_match cfg ?uri"
    | (exact) "k = ?uri" "?uri \<in> set (echo_locations cfg) \<or> ?uri \<in> set (status_locations cfg) \<or>
        ?uri \<in> set (map fst (redirect_locations cfg)) \<or> ?uri \<in> set (health_locations cfg) \<or>
        ?uri \<in> set (upload_form_locations cfg)"
    | (proxy) "find ?starts (it (map fst (proxy_locations cfg))) = Some k"
    | (blog) "find ?starts (it (map fst (blog_ips cfg))) = Some k"
    using key by blast
  then have "located cfg k \<and> prefix k ?uri"
  proof cases
    case static
    with longest_prefix_match_static [of cfg ?uri k] locatedI(2) [of k cfg] show ?thesis
      unfolding path_prefix_def by auto
  next
    case exact
    with locatedI [of k cfg] show ?thesis by auto
  next
    case proxy
    from find_SomeD [OF this] have "k \<in> fst ` set (proxy_locations cfg)" "?starts k" using it by simp_all
    with pre locatedI(4) show ?thesis by blast
  next
    case blog
    from find_SomeD [OF this] have "k \<in> fst ` set (blog_ips cfg)" "?starts k" using it by simp_all
    with pre locatedI(8) show ?thesis by blast
  qed
  then show "located cfg k" "prefix k ?uri" by simp_all
qed

lemma unescape_uri_shorter: "length (unescape_uri u) \<le> length u"
proof -
  have "length (decode_spaces u) \<le> length u"
    by (induction u rule: decode_spaces.induct) (auto simp: decode_spaces.simps(2) intro: le_trans)
  then show ?thesis by (simp add: unescape_uri_decode)
qed

subsection \<open>The invariant of the dispatcher\<close>

text \<open>Every location has a handler object; the lookup leaves such a table as it is.\<close>

definition dispatcher_ok :: "'c request_dispatcher \<Rightarrow> bool" where
  "dispatcher_ok rd \<longleftrightarrow> config_ok (config_of rd) \<and>
     (\<forall>l. located (config_of rd) l \<longrightarrow> (\<exists>h. map_of (table rd) l = Some (Some h)))"

lemma entered_Some: "entered it connect_db cfg tys l e \<Longrightarrow> \<exists>h. e = Some (Some h)"
  unfolding entered_def by blast

lemma dispatcher_ok_mapping:
  assumes "iteration it" "config_ok cfg" "create_handler_mapping it connect_db cfg = Inr rd"
  shows "dispatcher_ok rd"
proof -
  note facts = mapping_table [OF assms]
  have "\<exists>h. map_of (table rd) l = Some (Some h)" if "located cfg l" for l
    using that entered_Some [OF facts(4)] unfolding located_def by blast
  with assms(2) show ?thesis by (simp add: dispatcher_ok_def facts(1))
qed

lemma get_handler_ok:
  assumes "iteration it" "dispatcher_ok rd"
  shows "\<exists>h. get_handler it u rd = (Some h, rd)"
proof (cases "handler_key it (config_of rd) u")
  case None
  then show ?thesis by (simp add: get_handler_def)
next
  case (Some k)
  have "located (config_of rd) k"
    using handler_key_located(1) [OF assms(1) _ Some] assms(2) by (simp add: dispatcher_ok_def)
  with assms(2) obtain h where "map_of (table rd) k = Some (Some h)" by (auto simp: dispatcher_ok_def)
  with Some show ?thesis by (simp add: get_handler_def table_index_def)
qed

lemma dispatcher_ok_put:
  "dispatcher_ok rd \<Longrightarrow> dispatcher_ok (rd\<lparr>table := umap_put k (Some h) (table rd)\<rparr>)"
  by (auto simp: dispatcher_ok_def)

lemma dispatcher_ok_put_handler: "dispatcher_ok rd \<Longrightarrow> dispatcher_ok (put_handler it u h rd)"
  by (auto simp: put_handler_def dispatcher_ok_put split: option.split) (simp add: dispatcher_ok_def)

lemma dispatcher_ok_table_index:
  assumes "dispatcher_ok rd" "table_index k rd = (e, rd')"
  shows "dispatcher_ok rd' \<and> config_of rd' = config_of rd"
proof (cases "map_of (table rd) k")
  case None
  then have "\<not> located (config_of rd) k" using assms(1) by (auto simp: dispatcher_ok_def)
  with assms None show ?thesis by (auto simp: table_index_def dispatcher_ok_def)
qed (use assms in \<open>auto simp: table_index_def\<close>)

lemma put_handler_config [simp]: "config_of (put_handler it u h rd) = config_of rd"
  by (simp add: put_handler_def split: option.split)

lemma dispatcher_ok_record:
  assumes "dispatcher_ok rd" "record_request u status rd = Inr rd'"
  shows "dispatcher_ok rd' \<and> config_of rd' = config_of rd"
proof -
  obtain e rd1 where index: "table_index ''/status'' rd = (e, rd1)" by fastforce
  note one = dispatcher_ok_table_index [OF assms(1) index]
  show ?thesis
    using assms one
    by (auto simp: record_request_def get_status_handler_def index dispatcher_ok_put
        split: if_splits option.splits handler.splits)
qed

lemma serve_request_ok:
  assumes "iteration it" "dispatcher_ok rd"
  shows "serve_request it env request rd w = Some (Inr (response, rd'), w') \<Longrightarrow>
    dispatcher_ok rd' \<and> config_of rd' = config_of rd"
proof -
  assume served: "serve_request it env request rd w = Some (Inr (response, rd'), w')"
  obtain h where "get_handler it (uri_of request) rd = (Some h, rd)" using get_handler_ok [OF assms] by blast
  with served obtain h' where
    "record_request (uri_of request) (code_of response) (put_handler it (uri_of request) h' rd) = Inr rd'"
    by (auto simp: serve_request_def and_then_Inr split: option.splits)
  from dispatcher_ok_record [OF dispatcher_ok_put_handler [OF assms(2)] this] show ?thesis by simp
qed

text \<open>Requests served one after the other, whatever connection they come from.\<close>

fun serve_all ::
  "(string list \<Rightarrow> string list) \<Rightarrow> ('c, 'w, 'd, 'e) environment \<Rightarrow> Request list \<Rightarrow> 'c request_dispatcher \<Rightarrow> 'w
   \<Rightarrow> ((cpp_error + Response list \<times> 'c request_dispatcher) \<times> 'w) option" where
  "serve_all it env [] rd w = Some (Inr ([], rd), w)"
| "serve_all it env (request # requests) rd w =
     (case serve_request it env request rd w of
        None \<Rightarrow> None
      | Some (Inl e, w') \<Rightarrow> Some (Inl e, w')
      | Some (Inr (response, rd'), w') \<Rightarrow>
          (case serve_all it env requests rd' w' of
             None \<Rightarrow> None
           | Some (result, w'') \<Rightarrow> Some (and_then result (\<lambda>(responses, rd''). Inr (response # responses, rd'')), w'')))"

lemma serve_all_Cons:
  assumes "serve_all it env (request # requests) rd w = Some (Inr (responses, rd''), w'')"
  obtains response rd' w' rest where "serve_request it env request rd w = Some (Inr (response, rd'), w')"
    "serve_all it env requests rd' w' = Some (Inr (rest, rd''), w'')" "responses = response # rest"
  using assms by (auto simp: and_then_Inr split: option.splits sum.splits)

lemma serve_all_ok:
  assumes "iteration it"
  shows "dispatcher_ok rd \<Longrightarrow> serve_all it env requests rd w = Some (Inr (responses, rd'), w') \<Longrightarrow>
    dispatcher_ok rd' \<and> config_of rd' = config_of rd"
proof (induction requests arbitrary: rd w responses)
  case Nil
  then show ?case by simp
next
  case (Cons request requests)
  from Cons.prems(2) obtain response rd1 w1 rest where
    one: "serve_request it env request rd w = Some (Inr (response, rd1), w1)"
    and rest: "serve_all it env requests rd1 w1 = Some (Inr (rest, rd'), w')"
    by (rule serve_all_Cons)
  from serve_request_ok [OF assms Cons.prems(1) one] Cons.IH [OF _ rest] show ?case by simp
qed

subsection \<open>What serving a request changes\<close>

text \<open>
  An entry stays what it is, but for the state of a blog handler and the counts of a status handler; the handler for
  unknown locations stays.
\<close>

definition same_entry :: "'c handler option option \<Rightarrow> 'c handler option option \<Rightarrow> bool" where
  "same_entry e e' \<longleftrightarrow> e' = e \<or>
     (\<exists>h h'. e = Some (Some (BlogHandler h)) \<and> e' = Some (Some (BlogHandler h'))) \<or>
     (\<exists>h h'. e = Some (Some (StatusHandler h)) \<and> e' = Some (Some (StatusHandler h')))"

lemma same_entry_refl [simp]: "same_entry e e"
  by (simp add: same_entry_def)

lemma same_entry_trans: "same_entry e e' \<Longrightarrow> same_entry e' e'' \<Longrightarrow> same_entry e e''"
  unfolding same_entry_def by auto

lemma handle_request_same:
  "handle_request env h request w = Some (Inr (response, h'), w') \<Longrightarrow>
   h' = h \<or> (\<exists>b b'. h = BlogHandler b \<and> h' = BlogHandler b')"
  by (cases h) (auto simp: pure_def and_then_Inr)

lemma put_handler_table:
  assumes "get_handler it u rd = (Some h, rd)" "same_entry (Some (Some h)) (Some (Some h'))"
  shows "same_entry (map_of (table rd) k) (map_of (table (put_handler it u h' rd)) k)"
  using assms
  by (auto simp: get_handler_def table_index_def put_handler_def split: option.splits if_splits)

lemma put_handler_fields [simp]:
  "status_handler_enabled (put_handler it u h rd) = status_handler_enabled rd"
  by (simp add: put_handler_def split: option.split)

lemma record_request_table:
  assumes "record_request u status rd = Inr rd'"
  shows "(rd' = rd \<and> \<not> status_handler_enabled rd) \<or>
    (\<exists>h. status_handler_enabled rd \<and> map_of (table rd) ''/status'' = Some (Some (StatusHandler h)) \<and>
      rd' = rd\<lparr>table := umap_put ''/status'' (Some (StatusHandler (record_received_request u status h))) (table rd)\<rparr>)"
  using assms
  by (auto simp: record_request_def get_status_handler_def table_index_def split: if_splits option.splits handler.splits)

lemma record_request_same:
  assumes "record_request u status rd = Inr rd'"
  shows "same_entry (map_of (table rd) k) (map_of (table rd') k)"
  using record_request_table [OF assms]
  by (elim disjE exE conjE; cases "k = ''/status''") (simp_all add: same_entry_def)

lemma serve_request_cases:
  assumes "iteration it" "dispatcher_ok rd" "serve_request it env request rd w = Some (Inr (response, rd'), w')"
  obtains h h' where "get_handler it (uri_of request) rd = (Some h, rd)"
    "handle_request env h request w = Some (Inr (response, h'), w')"
    "record_request (uri_of request) (code_of response) (put_handler it (uri_of request) h' rd) = Inr rd'"
proof -
  obtain h where "get_handler it (uri_of request) rd = (Some h, rd)" using get_handler_ok [OF assms(1,2)] by blast
  with assms(3) that [of h] show thesis
    by (auto simp: serve_request_def and_then_Inr split: option.splits)
qed

lemma serve_request_table:
  assumes "iteration it" "dispatcher_ok rd" "serve_request it env request rd w = Some (Inr (response, rd'), w')"
  shows "same_entry (map_of (table rd) k) (map_of (table rd') k)"
proof -
  from assms obtain h h' where get: "get_handler it (uri_of request) rd = (Some h, rd)"
    and handled: "handle_request env h request w = Some (Inr (response, h'), w')"
    and recorded: "record_request (uri_of request) (code_of response) (put_handler it (uri_of request) h' rd) = Inr rd'"
    by (rule serve_request_cases)
  have "same_entry (Some (Some h)) (Some (Some h'))"
    using handle_request_same [OF handled] by (auto simp: same_entry_def)
  from same_entry_trans [OF put_handler_table [OF get this] record_request_same [OF recorded]] show ?thesis .
qed

lemma serve_request_error_handler:
  assumes "iteration it" "dispatcher_ok rd" "serve_request it env request rd w = Some (Inr (response, rd'), w')"
    and "error_handler rd = Error404Handler e"
  shows "error_handler rd' = Error404Handler e \<and> status_handler_enabled rd' = status_handler_enabled rd"
proof -
  from assms(1-3) obtain h h' where get: "get_handler it (uri_of request) rd = (Some h, rd)"
    and handled: "handle_request env h request w = Some (Inr (response, h'), w')"
    and recorded: "record_request (uri_of request) (code_of response) (put_handler it (uri_of request) h' rd) = Inr rd'"
    by (rule serve_request_cases)
  have "error_handler (put_handler it (uri_of request) h' rd) = Error404Handler e"
    using get handle_request_same [OF handled] assms(4)
    by (auto simp: get_handler_def put_handler_def split: option.splits)
  with record_request_table [OF recorded] show ?thesis by auto
qed

lemma serve_all_table:
  assumes "iteration it"
  shows "dispatcher_ok rd \<Longrightarrow> error_handler rd = Error404Handler e \<Longrightarrow>
    serve_all it env requests rd w = Some (Inr (responses, rd'), w') \<Longrightarrow>
    same_entry (map_of (table rd) k) (map_of (table rd') k) \<and> error_handler rd' = Error404Handler e \<and>
    config_of rd' = config_of rd \<and> dispatcher_ok rd'"
proof (induction requests arbitrary: rd w responses)
  case Nil
  then show ?case by simp
next
  case (Cons request requests)
  from Cons.prems(3) obtain response rd1 w1 rest where
    one: "serve_request it env request rd w = Some (Inr (response, rd1), w1)"
    and rest: "serve_all it env requests rd1 w1 = Some (Inr (rest, rd'), w')"
    by (rule serve_all_Cons)
  note ok = serve_request_ok [OF assms Cons.prems(1) one]
  note err = serve_request_error_handler [OF assms Cons.prems(1) one Cons.prems(2), THEN conjunct1]
  from Cons.IH [OF ok [THEN conjunct1] err rest] ok
    same_entry_trans [OF serve_request_table [OF assms Cons.prems(1) one, of k]]
  show ?case by auto
qed

text \<open>After any requests, an entry that is neither a blog nor a status handler is what \<open>Init\<close> made.\<close>

definition only_type :: "NginxConfig \<Rightarrow> string \<Rightarrow> string \<Rightarrow> bool" where
  "only_type cfg ty l \<longleftrightarrow>
     list_all (\<lambda>ty'. (l \<in> set (locations_of cfg ty')) = (ty' = ty)) handler_kinds"

lemma only_typeD:
  assumes "only_type cfg ty l" "l \<in> set (locations_of cfg ty')"
  shows "ty' = ty"
  using located_type [OF assms(2)] assms unfolding only_type_def list_all_iff by blast

lemma mapping_only_type:
  assumes "iteration it" "config_ok cfg" "create_handler_mapping it connect_db cfg = Inr rd"
    and "only_type cfg ty l" "l \<in> set (locations_of cfg ty)"
  obtains h where "init_handler it connect_db cfg ty l = Inr h" "map_of (table rd) l = Some (Some h)"
  using mapping_table(4) [OF assms(1-3,5)] only_typeD [OF assms(4)] that unfolding entered_def by blast

lemma after_requests:
  assumes "iteration it" "config_ok cfg" "create_handler_mapping it connect_db cfg = Inr rd0"
    and "serve_all it env requests rd0 w0 = Some (Inr (responses, rd), w)"
  shows "dispatcher_ok rd" "config_of rd = cfg"
    "error_handler rd = Error404Handler (error_404_Init ''error_404'' cfg)"
    "same_entry (map_of (table rd0) k) (map_of (table rd) k)"
  using serve_all_table [OF assms(1) dispatcher_ok_mapping [OF assms(1-3)] mapping_table(2) [OF assms(1-3)] assms(4), of k]
    mapping_table(1) [OF assms(1-3)]
  by simp_all

lemma same_entry_StaticHandler:
  "same_entry (Some (Some (StaticHandler h))) e \<Longrightarrow> e = Some (Some (StaticHandler h))"
  by (auto simp: same_entry_def)

lemma same_entry_to_ProxyHandler:
  "same_entry e (Some (Some (ProxyHandler h))) \<Longrightarrow> e = Some (Some (ProxyHandler h))"
  by (auto simp: same_entry_def)

text \<open>The proxy handler of an entry knows the entry's location.\<close>

lemma proxy_entry_location:
  assumes "iteration it" "config_ok cfg" "create_handler_mapping it connect_db cfg = Inr rd0"
    and "map_of (table rd0) k = Some (Some (ProxyHandler h))"
  shows "proxy_client_location_path h = k"
proof -
  have "\<exists>ty. k \<in> set (locations_of cfg ty)"
  proof (rule ccontr)
    assume "\<not> ?thesis"
    with mapping_table(5) [OF assms(1-3)] assms(4) show False by simp
  qed
  then obtain ty where "k \<in> set (locations_of cfg ty)" ..
  from mapping_table(4) [OF assms(1-3) this] assms(4) obtain ty' where
    "init_handler it connect_db cfg ty' k = Inr (ProxyHandler h)" unfolding entered_def by auto
  then show ?thesis
    by (auto simp: init_handler_def and_then_Inr proxy_Init_def Let_def split: if_splits option.splits)
qed

text \<open>The status handler under \<open>/status\<close> records every request, whoever served it.\<close>

lemma serve_request_status:
  assumes "iteration it" "dispatcher_ok rd" "status_handler_enabled rd"
    and "map_of (table rd) ''/status'' = Some (Some (StatusHandler h))"
    and "serve_request it env request rd w = Some (Inr (response, rd'), w')"
  shows "map_of (table rd') ''/status'' =
      Some (Some (StatusHandler (record_received_request (uri_of request) (code_of response) h)))"
    "status_handler_enabled rd'"
proof -
  from assms(1,2,5) obtain h1 h1' where get: "get_handler it (uri_of request) rd = (Some h1, rd)"
    and handled: "handle_request env h1 request w = Some (Inr (response, h1'), w')"
    and recorded: "record_request (uri_of request) (code_of response) (put_handler it (uri_of request) h1' rd) = Inr rd'"
    by (rule serve_request_cases)
  have "map_of (table (put_handler it (uri_of request) h1' rd)) ''/status'' = Some (Some (StatusHandler h))"
    using get assms(4) handle_request_same [OF handled]
    by (auto simp: get_handler_def table_index_def put_handler_def split: option.splits)
  with record_request_table [OF recorded] assms(3)
  show "map_of (table rd') ''/status'' =
      Some (Some (StatusHandler (record_received_request (uri_of request) (code_of response) h)))"
    "status_handler_enabled rd'"
    by auto
qed

lemma serve_all_status:
  assumes "iteration it"
  shows "dispatcher_ok rd \<Longrightarrow> status_handler_enabled rd \<Longrightarrow>
    map_of (table rd) ''/status'' = Some (Some (StatusHandler h)) \<Longrightarrow>
    serve_all it env requests rd w = Some (Inr (responses, rd'), w') \<Longrightarrow>
    length responses = length requests \<and> map_of (table rd') ''/status'' =
      Some (Some (StatusHandler (record_all (zip (map uri_of requests) (map code_of responses)) h)))"
proof (induction requests arbitrary: rd w responses h)
  case Nil
  then show ?case by (simp add: record_all_def)
next
  case (Cons request requests)
  from Cons.prems(4) obtain response rd1 w1 rest where
    one: "serve_request it env request rd w = Some (Inr (response, rd1), w1)"
    and rest: "serve_all it env requests rd1 w1 = Some (Inr (rest, rd'), w')" "responses = response # rest"
    by (rule serve_all_Cons)
  note ok = serve_request_ok [OF assms Cons.prems(1) one, THEN conjunct1]
  note status = serve_request_status [OF assms Cons.prems(1-3) one]
  from Cons.IH [OF ok status(2,1) rest(1)] rest(2) show ?case by (simp add: record_all_def)
qed

text \<open>When no two keys can both match, the order in which they are tried does not matter.\<close>

definition overlap_free :: "string list \<Rightarrow> bool" where
  "overlap_free ls \<longleftrightarrow> list_all (\<lambda>l. list_all (\<lambda>l'. prefix l l' \<longrightarrow> l = l') ls) ls"

lemma find_unique:
  assumes "set xs = set ys" "\<And>x y. x \<in> set xs \<Longrightarrow> y \<in> set xs \<Longrightarrow> P x \<Longrightarrow> P y \<Longrightarrow> x = y"
  shows "find P xs = find P ys"
proof (cases "find P ys")
  case None
  then have "find P xs = None" using assms(1) by (simp add: find_None_iff)
  with None show ?thesis by simp
next
  case (Some y)
  then have "find P xs \<noteq> None" using assms(1) find_SomeD [OF Some] by (auto simp: find_None_iff)
  then obtain x where x: "find P xs = Some x" by blast
  with assms(2) [of x y] find_SomeD [OF x] find_SomeD [OF Some] assms(1) Some show ?thesis by simp
qed

lemma find_overlap_free:
  assumes "iteration it" "iteration it'" "distinct ls" "overlap_free ls"
  shows "find (\<lambda>l. take (length l) uri = l) (it ls) = find (\<lambda>l. take (length l) uri = l) (it' ls)"
proof (rule find_unique)
  show "set (it ls) = set (it' ls)" using assms(1-3) by (simp add: iterationD(1))
next
  fix l l' assume "l \<in> set (it ls)" "l' \<in> set (it ls)" "take (length l) uri = l" "take (length l') uri = l'"
  moreover from this have "prefix l uri" "prefix l' uri" by (metis take_is_prefix)+
  then have "prefix l l' \<or> prefix l' l" by (rule prefix_same_cases)
  ultimately show "l = l'"
    using assms(4) iterationD(1) [OF assms(1,3)] by (auto simp: overlap_free_def list_all_iff)
qed

text \<open>The name in the configuration of the type of a handler.\<close>

fun handler_type_name :: "'c handler \<Rightarrow> string" where
  "handler_type_name (EchoHandler h) = ''EchoHandler''"
| "handler_type_name (StaticHandler h) = ''StaticHandler''"
| "handler_type_name (StatusHandler h) = ''StatusHandler''"
| "handler_type_name (ProxyHandler h) = ''ProxyHandler''"
| "handler_type_name (RedirectHandler h) = ''RedirectHandler''"
| "handler_type_name (HealthHandler h) = ''HealthHandler''"
| "handler_type_name (UploadFormHandler h) = ''UploadFormHandler''"
| "handler_type_name (BlogHandler h) = ''BlogHandler''"
| "handler_type_name (Error404Handler h) = ''Error404Handler''"

lemma init_handler_type:
  assumes "ty \<in> set handler_kinds" "init_handler it connect_db cfg ty l = Inr h"
  shows "handler_type_name h = ty"
  using assms unfolding handler_kinds_def list.set
  by (elim insertE emptyE) (auto simp: init_handler_def and_then_Inr)

lemma same_entry_type:
  "same_entry (Some (Some h)) e \<Longrightarrow> \<exists>h'. e = Some (Some h') \<and> handler_type_name h' = handler_type_name h"
  unfolding same_entry_def by auto

subsection \<open>An example\<close>

text \<open>One configuration, an empty world and a disk with one file, to evaluate the lookup and the handlers on.\<close>

definition example_config :: NginxConfig where
  "example_config = new_config\<lparr>port_number := 80,
     handler_types := [''StaticHandler'', ''StatusHandler'', ''ProxyHandler''],
     static_locations := [(''/s'', ''/d'')], status_locations := [''/status''],
     proxy_locations := [(''/p'', ''x'', 80)]\<rparr>"

definition example_environment :: "(Blog list, unit, unit, unit) environment" where
  "example_environment = \<lparr>files = (\<lambda>f. if f = ''/d/x'' then Some ''hi'' else None), databases = mock_ops,
     servers = \<lparr>exchange = (\<lambda>w host service bytes. (Inl SystemError, w)), initial_contentsize = (\<lambda>w. 0)\<rparr>,
     html = \<lparr>gunzip = (\<lambda>_. None), html_read = (\<lambda>_ _. ()), html_nodes = (\<lambda>_. []), html_update = (\<lambda>_ d. d),
       html_dump = (\<lambda>_. None), is_element = (\<lambda>_. False), get_prop = (\<lambda>_ _. None), set_prop = (\<lambda>_ _ e. e)\<rparr>,
     redirect_limit = 3\<rparr>"

definition example_get :: "string \<Rightarrow> Request" where
  "example_get uri = \<lparr>method_of = Some GET, uri_of = uri, version_of = ''HTTP/1.1'', headers_of = [], body_of = []\<rparr>"

definition example_dispatcher :: "Blog list request_dispatcher" where
  "example_dispatcher = projr (create_handler_mapping (\<lambda>l. l) (\<lambda>_. []) example_config)"

lemma example_config_fields [simp]:
  "echo_locations example_config = []" "static_locations example_config = [(''/s'', ''/d'')]"
  "status_locations example_config = [''/status'']" "proxy_locations example_config = [(''/p'', ''x'', 80)]"
  "redirect_locations example_config = []" "health_locations example_config = []"
  "upload_form_locations example_config = []" "blog_ips example_config = []"
  "handler_types example_config = [''StaticHandler'', ''StatusHandler'', ''ProxyHandler'']"
  "port_number example_config = 80"
  by (simp_all add: example_config_def new_config_def)

lemma example_config_ok: "config_ok example_config"
  by (simp add: config_ok_def port_ok_def umap_ok_def MAX_PORT_def)

lemma example_mapping: "create_handler_mapping (\<lambda>l. l) (\<lambda>_. []) example_config = Inr example_dispatcher"
  by (simp add: example_dispatcher_def create_handler_mapping_def register_type_def empty_dispatcher_def static_Init_def
      map_at_def proxy_Init_def find_from_def)

lemmas example_start = iteration_id example_config_ok example_mapping
  serve_all.simps(1) [of "\<lambda>l. l" example_environment example_dispatcher "()"]

end
