(* ===== verification/DispatcherProperties.thy ===== *)
theory DispatcherProperties
  imports DispatcherFacts
begin

text \<open>
  The properties of the dispatcher: which handler serves a URI, what the status page counts, and what happens when the
  status handler is not where the code looks for it.
\<close>

text \<open>
  C22. The static location chosen for a URI is one that the URI is below (the location itself, or the location, a slash and
  something), and the longest of them; none is chosen exactly when there is none (or only the empty one).
\<close>

theorem longest_static_location:
  "(case longest_prefix_match cfg uri of
      [] \<Rightarrow> \<nexists>s. s \<in> set (map fst (static_locations cfg)) \<and> s \<noteq> [] \<and> path_prefix s uri
    | s \<Rightarrow> s \<in> set (map fst (static_locations cfg)) \<and> path_prefix s uri \<and>
        (\<nexists>t. t \<in> set (map fst (static_locations cfg)) \<and> path_prefix t uri \<and> length s < length t))"
proof (cases "find (\<lambda>s. s \<in> set (map fst (static_locations cfg))) (cuts uri)")
  case None
  then have "\<forall>t. path_prefix t uri \<longrightarrow> t \<notin> set (map fst (static_locations cfg))"
    by (simp add: find_cuts_None)
  with None show ?thesis by (auto simp: longest_prefix_match_find)
next
  case (Some s)
  note facts = find_cuts [OF Some]
  show ?thesis
  proof (cases s)
    case Nil
    then have "t = []" if "t \<in> set (map fst (static_locations cfg))" "path_prefix t uri" for t
      using facts(3) [OF that] by simp
    with Nil Some show ?thesis by (auto simp: longest_prefix_match_find)
  next
    case (Cons c cs)
    have "\<not> length s < length t" if "t \<in> set (map fst (static_locations cfg))" "path_prefix t uri" for t
      using facts(3) [OF that] by simp
    with Cons Some facts(1,2) show ?thesis by (auto simp: longest_prefix_match_find)
  qed
qed

subsection \<open>Every request finds a handler\<close>

text \<open>
  C20. With a well-formed configuration and whatever requests were served before, the lookup gives a handler object for
  every URI, never a null pointer, and adds nothing to the table.
\<close>

theorem handler_always_found:
  assumes "iteration it" "config_ok cfg" "create_handler_mapping it connect_db cfg = Inr rd0"
    and "serve_all it env requests rd0 w0 = Some (Inr (responses, rd), w)"
  shows "\<exists>h. get_handler it uri rd = (Some h, rd)"
  using get_handler_ok [OF assms(1) after_requests(1) [OF assms]] .

theorem handler_always_found_witness:
  "\<exists>h. get_handler (\<lambda>l. l) ''/s/x'' example_dispatcher = (Some h, example_dispatcher)"
  by (rule handler_always_found [OF example_start])

text \<open>
  C21. The handler found for a URI whose key is configured for one type only is, at any time, an object of the class of that
  type.
\<close>

theorem handler_type_of_location:
  assumes "iteration it" "config_ok cfg" "create_handler_mapping it connect_db cfg = Inr rd0"
    and "serve_all it env requests rd0 w0 = Some (Inr (responses, rd), w)"
    and "only_type cfg ty l" "l \<in> set (locations_of cfg ty)" "handler_key it cfg uri = Some l"
  shows "\<exists>h. get_handler it uri rd = (Some h, rd) \<and> handler_type_name h = ty"
proof -
  obtain h where h: "init_handler it connect_db cfg ty l = Inr h" "map_of (table rd0) l = Some (Some h)"
    using mapping_only_type [OF assms(1-3,5,6)] by metis
  note after = after_requests [OF assms(1-4)]
  obtain h' where "map_of (table rd) l = Some (Some h')" "handler_type_name h' = handler_type_name h"
    using same_entry_type [of h "map_of (table rd) l"] after(4) [of l] h(2) by auto
  with init_handler_type [OF located_type [OF assms(6)] h(1)] assms(7) show ?thesis
    by (simp add: get_handler_def table_index_def after(2))
qed

theorem handler_type_of_location_witness:
  "\<exists>h. get_handler (\<lambda>l. l) ''/p/q'' example_dispatcher = (Some h, example_dispatcher) \<and>
    handler_type_name h = ''ProxyHandler''"
proof -
  have "only_type example_config ''ProxyHandler'' ''/p''" "''/p'' \<in> set (locations_of example_config ''ProxyHandler'')"
    by (simp_all add: only_type_def handler_kinds_def)
  moreover have "handler_key (\<lambda>l. l) example_config ''/p/q'' = Some ''/p''"
    by (simp add: handler_key_def unescape_uri_decode decode_spaces_plain longest_prefix_match.simps find_last_of.simps)
  ultimately show ?thesis by (rule handler_type_of_location [OF example_start])
qed

text \<open>
  A file below a static location: when the location is the longest one that covers the URI, is configured for static
  files only and no echo handler has the URI, then at any time the request is answered with the file of that name below
  the configured root, or with the 404 page when it cannot be opened.
\<close>

theorem static_served:
  assumes "iteration it" "config_ok cfg" "create_handler_mapping it connect_db cfg = Inr rd0"
    and "serve_all it env requests rd0 w0 = Some (Inr (responses, rd), w)"
    and "map_of (static_locations cfg) s = Some root" "only_type cfg ''StaticHandler'' s"
    and "unescape_uri (uri_of request) = s @ CHR ''/'' # rest" "s @ CHR ''/'' # rest \<notin> set (echo_locations cfg)"
    and "longest_prefix_match cfg (s @ CHR ''/'' # rest) = s" "s \<noteq> []"
  shows "\<exists>h. get_handler it (uri_of request) rd = (Some h, rd) \<and>
    handle_request env h request w = Some (Inr
      (case files env (c_str (root @ CHR ''/'' # rest)) of
         None \<Rightarrow> default_bad_request
       | Some data \<Rightarrow> body_response St_ok data (get_mime_type (s @ CHR ''/'' # rest)), h), w)"
proof -
  have "s \<in> set (locations_of cfg ''StaticHandler'')"
    using assms(5) by (auto dest: map_of_SomeD simp: image_iff intro: bexI [rotated])
  then obtain h where "init_handler it connect_db cfg ''StaticHandler'' s = Inr h"
    and there: "map_of (table rd0) s = Some (Some h)"
    using mapping_only_type [OF assms(1-3,6)] by metis
  then have h: "h = StaticHandler \<lparr>client_location_path = s, server_root_path = root\<rparr>"
    by (simp add: init_handler_def static_Init_def map_at_def assms(5))
  note after = after_requests [OF assms(1-4)]
  have "map_of (table rd) s = Some (Some h)"
    using after(4) [of s] same_entry_StaticHandler there h by metis
  moreover have "handler_key it (config_of rd) (uri_of request) = Some s"
    using assms(7-10) by (simp add: handler_key_def Let_def after(2))
  ultimately have "get_handler it (uri_of request) rd = (Some h, rd)"
    by (simp add: get_handler_def table_index_def)
  moreover have "static_file_name \<lparr>client_location_path = s, server_root_path = root\<rparr> (uri_of request) = root @ CHR ''/'' # rest"
    using static_file_name_below [of "uri_of request" "\<lparr>client_location_path = s, server_root_path = root\<rparr>" rest] assms(7)
    by simp
  ultimately show ?thesis by (simp add: h pure_def static_handle_request_def assms(7) split: option.split)
qed

theorem static_served_witness:
  "\<exists>h. get_handler (\<lambda>l. l) ''/s/x'' example_dispatcher = (Some h, example_dispatcher) \<and>
    handle_request example_environment h (example_get ''/s/x'') () =
      Some (Inr (body_response St_ok ''hi'' ''text/plain'', h), ())"
proof -
  have uri: "unescape_uri (uri_of (example_get ''/s/x'')) = ''/s'' @ CHR ''/'' # ''x''"
    by (simp add: example_get_def unescape_uri_decode decode_spaces_plain)
  have longest: "longest_prefix_match example_config (''/s'' @ CHR ''/'' # ''x'') = ''/s''"
    by (simp add: longest_prefix_match.simps find_last_of.simps)
  have type: "only_type example_config ''StaticHandler'' ''/s''"
    by (simp add: only_type_def handler_kinds_def)
  show ?thesis
    using static_served [OF example_start, where root = "''/d''", OF _ type uri _ longest]
    by (simp add: example_environment_def example_get_def c_str_def get_mime_type_def find_last_of.simps)
qed

text \<open>
  A URI that does not begin with any configured location is, at any time, answered with the 404 page.
\<close>

theorem unknown_location_404:
  assumes "iteration it" "config_ok cfg" "create_handler_mapping it connect_db cfg = Inr rd0"
    and "serve_all it env requests rd0 w0 = Some (Inr (responses, rd), w)"
    and "list_all (\<lambda>ty. list_all (\<lambda>l. \<not> prefix l (unescape_uri (uri_of request))) (locations_of cfg ty)) handler_kinds"
  shows "\<exists>h. get_handler it (uri_of request) rd = (Some h, rd) \<and>
    handle_request env h request w = Some (Inr (body_response St_not_found (stock_responses St_not_found) ''text/html'', h), w)"
proof -
  note after = after_requests [OF assms(1-4)]
  have "handler_key it cfg (uri_of request) = None"
  proof (rule ccontr)
    assume "handler_key it cfg (uri_of request) \<noteq> None"
    then obtain k where "handler_key it cfg (uri_of request) = Some k" by blast
    from handler_key_located [OF assms(1,2) this] located_type assms(5) show False
      unfolding located_def list_all_iff by blast
  qed
  then show ?thesis
    by (simp add: get_handler_def after(2,3) pure_def error_404_handle_request_def)
qed

theorem unknown_location_404_witness:
  "\<exists>h. get_handler (\<lambda>l. l) ''/q'' example_dispatcher = (Some h, example_dispatcher) \<and>
    handle_request example_environment h (example_get ''/q'') () =
      Some (Inr (body_response St_not_found (stock_responses St_not_found) ''text/html'', h), ())"
  using unknown_location_404 [OF example_start, where request = "example_get ''/q''"]
  by (simp add: handler_kinds_def example_get_def unescape_uri_decode decode_spaces_plain)

text \<open>
  A proxy handler that the lookup gives never fails to cut its location off the URI, although the location is compared
  with the decoded URI and cut off the original one.
\<close>

theorem dispatched_to_proxy_safe:
  assumes "iteration it" "config_ok cfg" "create_handler_mapping it connect_db cfg = Inr rd0"
    and "serve_all it env requests rd0 w0 = Some (Inr (responses, rd), w)"
    and "get_handler it uri rd = (Some (ProxyHandler h), rd)"
  shows "is_ok (forwarded_uri h uri)"
proof -
  note after = after_requests [OF assms(1-4)]
  obtain k where k: "handler_key it cfg uri = Some k" "map_of (table rd) k = Some (Some (ProxyHandler h))"
    using assms(5) by (auto simp: get_handler_def table_index_def after(2,3) split: option.splits)
  have "map_of (table rd0) k = Some (Some (ProxyHandler h))"
    using after(4) [of k] k(2) same_entry_to_ProxyHandler by metis
  then have "proxy_client_location_path h = k" by (rule proxy_entry_location [OF assms(1-3)])
  moreover have "length k \<le> length uri"
    using prefix_length_le [OF handler_key_located(2) [OF assms(1,2) k(1)]] unescape_uri_shorter [of uri] by simp
  ultimately show ?thesis by (simp add: forwarded_uri_def substr_from_def Let_def)
qed

theorem dispatched_to_proxy_safe_witness:
  "is_ok (forwarded_uri \<lparr>proxy_client_location_path = ''/p'', server_url = ''x'', server_location_path = [],
     server_port_num = 80\<rparr> ''/p/q'')"
  by (rule dispatched_to_proxy_safe [OF example_start])
    (simp add: get_handler_def handler_key_def unescape_uri_decode decode_spaces_plain longest_prefix_match.simps
      find_last_of.simps table_index_def example_dispatcher_def create_handler_mapping_def register_type_def
      empty_dispatcher_def static_Init_def map_at_def proxy_Init_def find_from_def)

text \<open>
  The handler found does not depend on the order in which the code goes through its hash containers, as long as no proxy
  location is a prefix of another one and no blog location of another one.
\<close>

theorem lookup_order_irrelevant:
  assumes "iteration it" "iteration it'" "config_ok cfg"
    and "overlap_free (map fst (proxy_locations cfg))" "overlap_free (map fst (blog_ips cfg))"
  shows "handler_key it cfg uri = handler_key it' cfg uri"
proof -
  have "distinct (map fst (proxy_locations cfg))" "distinct (map fst (blog_ips cfg))"
    using assms(3) by (simp_all add: config_ok_def umap_ok_def)
  from find_overlap_free [OF assms(1,2) this(1) assms(4)] find_overlap_free [OF assms(1,2) this(2) assms(5)]
  show ?thesis by (simp add: handler_key_def Let_def split: option.split)
qed

theorem lookup_order_irrelevant_witness:
  "handler_key (\<lambda>l. l) example_config ''/p/q'' = handler_key rev example_config ''/p/q''"
  by (rule lookup_order_irrelevant [OF iteration_id iteration_rev example_config_ok]) (simp_all add: overlap_free_def)

text \<open>With overlapping locations it does.\<close>

lemma overlapping_locations:
  "handler_key (\<lambda>l. l) (new_config\<lparr>proxy_locations := [(''/a'', ''x'', 1), (''/ab'', ''y'', 2)]\<rparr>) ''/abc'' = Some ''/a''"
  "handler_key rev (new_config\<lparr>proxy_locations := [(''/a'', ''x'', 1), (''/ab'', ''y'', 2)]\<rparr>) ''/abc'' = Some ''/ab''"
  by (simp_all add: handler_key_def new_config_def unescape_uri_decode decode_spaces_plain longest_prefix_match.simps
      find_last_of.simps)

subsection \<open>The status page\<close>

text \<open>
  C31. With a status handler at \<open>/status\<close>, the counter is the number of all requests served, by any handler (modulo
  \<open>2 ^ 32\<close>), and the list has one line for each, in the order served, with its URI and the code it was answered with.
\<close>

theorem status_counts_all:
  assumes "iteration it" "config_ok cfg" "create_handler_mapping it connect_db cfg = Inr rd0"
    and "only_type cfg ''StatusHandler'' ''/status''" "''/status'' \<in> set (status_locations cfg)"
    and "serve_all it env requests rd0 w0 = Some (Inr (responses, rd), w)"
  shows "\<exists>h. map_of (table rd) ''/status'' = Some (Some (StatusHandler h)) \<and>
    request_counter h = word_of_nat (length requests) \<and>
    received_request_list h = ''Received request(s):'' @ crlf
      @ concat (map record_line (zip (map uri_of requests) (map code_of responses)))"
proof -
  have "''/status'' \<in> set (locations_of cfg ''StatusHandler'')" using assms(5) by simp
  from mapping_only_type [OF assms(1-4) this] have
    start: "map_of (table rd0) ''/status'' = Some (Some (StatusHandler (status_Init it ''/status'' cfg)))"
    by (auto simp: init_handler_def)
  have "status_handler_enabled rd0" using mapping_table(3) [OF assms(1-3)] assms(5) by auto
  from serve_all_status [OF assms(1) dispatcher_ok_mapping [OF assms(1-3)] this start assms(6)] show ?thesis
    by (simp add: record_all_fields status_Init_def new_status_request_handler_def)
qed

theorem status_counts_all_witness:
  "\<exists>responses rd h.
    serve_all (\<lambda>l. l) example_environment [example_get ''/q'', example_get ''/s/x''] example_dispatcher ()
      = Some (Inr (responses, rd), ()) \<and>
    map_of (table rd) ''/status'' = Some (Some (StatusHandler h)) \<and> request_counter h = 2"
proof -
  have "\<exists>responses rd.
    serve_all (\<lambda>l. l) example_environment [example_get ''/q'', example_get ''/s/x''] example_dispatcher ()
      = Some (Inr (responses, rd), ())"
    by (simp add: example_environment_def example_get_def serve_request_def get_handler_def handler_key_def
        unescape_uri_decode decode_spaces_plain longest_prefix_match.simps find_last_of.simps table_index_def pure_def
        put_handler_def record_request_def get_status_handler_def example_dispatcher_def create_handler_mapping_def
        register_type_def empty_dispatcher_def static_Init_def map_at_def proxy_Init_def find_from_def)
  then obtain responses rd where served:
    "serve_all (\<lambda>l. l) example_environment [example_get ''/q'', example_get ''/s/x''] example_dispatcher ()
      = Some (Inr (responses, rd), ())" by blast
  have "only_type example_config ''StatusHandler'' ''/status''"
    by (simp add: only_type_def handler_kinds_def)
  from status_counts_all [OF example_start(1-3) this _ served] served show ?thesis by auto
qed

text \<open>
  C35. With a status handler at another location and nothing at \<open>/status\<close>, the first request that a handler answers makes the
  program call a function of a null pointer, because the session looks for the status handler under \<open>/status\<close> only.
\<close>

theorem status_elsewhere:
  assumes "iteration it" "config_ok cfg" "create_handler_mapping it connect_db cfg = Inr rd"
    and "status_locations cfg \<noteq> []" "list_all (\<lambda>ty. ''/status'' \<notin> set (locations_of cfg ty)) handler_kinds"
  shows "\<exists>h. get_handler it (uri_of request) rd = (Some h, rd) \<and>
    (\<forall>response h' w'. handle_request env h request w = Some (Inr (response, h'), w')
       \<longrightarrow> serve_request it env request rd w = Some (Inl UndefinedBehaviour, w'))"
proof -
  have "\<nexists>ty. ''/status'' \<in> set (locations_of cfg ty)"
    using assms(5) located_type unfolding list_all_iff by blast
  from mapping_table(5) [OF assms(1-3) this] have none: "map_of (table rd) ''/status'' = None" .
  have enabled: "status_handler_enabled rd" using mapping_table(3) [OF assms(1-3)] assms(4) by simp
  obtain h where h: "get_handler it (uri_of request) rd = (Some h, rd)"
    using get_handler_ok [OF assms(1) dispatcher_ok_mapping [OF assms(1-3)]] by blast
  have "serve_request it env request rd w = Some (Inl UndefinedBehaviour, w')"
    if handled: "handle_request env h request w = Some (Inr (response, h'), w')" for response h' w'
  proof -
    let ?rd = "put_handler it (uri_of request) h' rd"
    have "same_entry (Some (Some h)) (Some (Some h'))"
      using handle_request_same [OF handled] by (auto simp: same_entry_def)
    from put_handler_table [OF h this, of "''/status''"] none have "map_of (table ?rd) ''/status'' = None"
      by (simp add: same_entry_def)
    then have "record_request (uri_of request) (code_of response) ?rd = Inl UndefinedBehaviour"
      using enabled by (simp add: record_request_def get_status_handler_def table_index_def)
    with h handled show ?thesis by (simp add: serve_request_def)
  qed
  with h show ?thesis by blast
qed

definition misplaced_status :: NginxConfig where
  "misplaced_status = new_config\<lparr>handler_types := [''StatusHandler''], status_locations := [''/stats'']\<rparr>"

theorem status_elsewhere_witness:
  "\<exists>rd h. create_handler_mapping (\<lambda>l. l) (\<lambda>_. []) misplaced_status = Inr rd \<and>
    get_handler (\<lambda>l. l) ''/q'' rd = (Some h, rd) \<and>
    serve_request (\<lambda>l. l) example_environment (example_get ''/q'') rd () = Some (Inl UndefinedBehaviour, ())"
proof -
  have "\<exists>rd. create_handler_mapping (\<lambda>l. l) (\<lambda>_. [] :: Blog list) misplaced_status = Inr rd"
    by (simp add: misplaced_status_def new_config_def create_handler_mapping_def register_type_def empty_dispatcher_def
        Let_def)
  then obtain rd where rd: "create_handler_mapping (\<lambda>l. l) (\<lambda>_. [] :: Blog list) misplaced_status = Inr rd" ..
  have ok: "config_ok misplaced_status"
    by (simp add: misplaced_status_def new_config_def config_ok_def port_ok_def umap_ok_def)
  have config: "config_of rd = misplaced_status" by (rule mapping_table(1) [OF iteration_id ok rd])
  have error: "error_handler rd = Error404Handler (error_404_Init ''error_404'' misplaced_status)"
    by (rule mapping_table(2) [OF iteration_id ok rd])
  have get: "get_handler (\<lambda>l. l) ''/q'' rd = (Some (error_handler rd), rd)"
    by (simp add: get_handler_def handler_key_def config misplaced_status_def new_config_def unescape_uri_decode
        decode_spaces_plain longest_prefix_match.simps find_last_of.simps)
  have "status_locations misplaced_status \<noteq> []"
    "list_all (\<lambda>ty. ''/status'' \<notin> set (locations_of misplaced_status ty)) handler_kinds"
    by (simp_all add: misplaced_status_def new_config_def handler_kinds_def)
  from status_elsewhere [OF iteration_id ok rd this, of "example_get ''/q''" example_environment "()"]
  have "serve_request (\<lambda>l. l) example_environment (example_get ''/q'') rd () = Some (Inl UndefinedBehaviour, ())"
    using get by (simp add: example_get_def error pure_def)
  with rd get show ?thesis by blast
qed

end
