(* ===== verification/Server.thy ===== *)
theory Server
  imports Dispatcher
begin

text \<open>
  Connections and the server: \<open>session\<close> (src/session.cc), \<open>server\<close> (src/server.cc) and \<open>main\<close> (src/server_main.cc).

  Boost.Asio calls the handlers when an operation completes. The operations under way are part of the state (\<open>pending_io\<close>),
  their completions are the events, and \<open>step\<close> is the relation of the whole server: one handler runs at a time, on the
  session, the dispatcher shared by all sessions and the outside world. That four threads may run handlers of different
  sessions at the same time is the subject of \<open>Threads\<close>.

  An exception that leaves a handler leaves the thread that runs it and ends the program: \<open>Terminated\<close>. A handler that never
  returns (a chain of redirects without end) has no step.

  \<open>setting\<close> is what the program runs in: the order of its hash containers, the environment of the handlers and the value of
  the method of a \<open>Request\<close> that \<open>build_request\<close> leaves uninitialised.
\<close>

record ('c, 'w, 'd, 'e) setting =
  iteration_order :: "string list \<Rightarrow> string list"
  handlers_env :: "('c, 'w, 'd, 'e) environment"
  uninitialised_method :: "'w \<Rightarrow> MethodEnum option"

subsection \<open>Sessions\<close>

datatype pending_io =
    Accepting              \<comment> \<open>\<open>async_accept\<close>\<close>
  | Reading                \<comment> \<open>\<open>async_read_some\<close>, then \<open>handle_read\<close>\<close>
  | Writing                \<comment> \<open>\<open>async_write\<close>, then \<open>handle_write\<close>\<close>
  | Writing_last           \<comment> \<open>\<open>async_write\<close>, then \<open>shutdown\<close>\<close>
  | Shut_down              \<comment> \<open>nothing: the socket is shut down, the object stays\<close>
  | Deleted                \<comment> \<open>nothing: \<open>delete this\<close>\<close>

text \<open>
  \<open>data_buffer\<close> is \<open>data_\<close>, filled for the first time by \<open>start\<close>; \<open>written\<close> is what the writes that have completed have sent on
  the connection.
\<close>

record session =
  parser_builder :: rq_machine        \<comment> \<open>\<open>request_parser_\<close> and \<open>request_builder_\<close>\<close>
  response :: "Response option"       \<comment> \<open>\<open>response_\<close>, \<open>None\<close> before the first answer\<close>
  data_buffer :: string
  pending :: pending_io
  written :: string

definition max_length :: nat where "max_length = 1024"

definition new_session :: session where
  "new_session = \<lparr>parser_builder = (new_request_parser, new_request_builder), response = None, data_buffer = [],
     pending = Accepting, written = []\<rparr>"

definition async_read_some :: "session \<Rightarrow> session" where
  "async_read_some s = s\<lparr>pending := Reading\<rparr>"

definition clear_buffer :: "session \<Rightarrow> session" where
  "clear_buffer s = s\<lparr>data_buffer := replicate (max_length + 1) CHR 0x00\<rparr>"

definition start :: "session \<Rightarrow> session" where
  "start s = async_read_some (clear_buffer s)"

text \<open>A read that completes has put its bytes into the buffer.\<close>

definition receive :: "string \<Rightarrow> session \<Rightarrow> session" where
  "receive bytes s = s\<lparr>data_buffer := bytes @ drop (length bytes) (data_buffer s)\<rparr>"

definition answer :: "Response \<Rightarrow> pending_io \<Rightarrow> session \<Rightarrow> session" where
  "answer r io s = s\<lparr>response := Some r, pending := io\<rparr>"

definition handle_read ::
  "('c, 'w, 'd, 'e) setting \<Rightarrow> bool \<Rightarrow> nat \<Rightarrow> session \<Rightarrow> 'c request_dispatcher \<Rightarrow> 'w
   \<Rightarrow> ((cpp_error + session \<times> 'c request_dispatcher) \<times> 'w) option" where
  "handle_read S error bytes_transferred s rd w =
     (if \<not> error then
        (case rq_parse (parser_builder s) (take bytes_transferred (data_buffer s)) of
           (Good, (p, b), rest) \<Rightarrow>
             (case serve_request (iteration_order S) (handlers_env S) (rq_build_request (uninitialised_method S w) b) rd w of
                None \<Rightarrow> None
              | Some (result, w') \<Rightarrow>
                  Some (and_then result (\<lambda>(r, rd').
                    Inr (if rb_keep_alive b
                         then answer r Writing (s\<lparr>parser_builder := (rq_reset p, new_request_builder)\<rparr>)
                         else answer r Writing_last (s\<lparr>parser_builder := (p, b)\<rparr>), rd')), w'))
         | (Bad, m, rest) \<Rightarrow>
             Some (Inr (answer (stock_response St_bad_request) Writing_last (s\<lparr>parser_builder := m\<rparr>), rd), w)
         | (Indeterminate, m, rest) \<Rightarrow>
             Some (Inr (async_read_some (clear_buffer (s\<lparr>parser_builder := m\<rparr>)), rd), w))
      else Some (Inr (s\<lparr>pending := Deleted\<rparr>, rd), w))"

definition handle_write :: "bool \<Rightarrow> session \<Rightarrow> session" where
  "handle_write error s = (if \<not> error then async_read_some s else s\<lparr>pending := Deleted\<rparr>)"

definition shutdown :: "bool \<Rightarrow> session \<Rightarrow> session" where
  "shutdown error s = (if \<not> error then s\<lparr>pending := Shut_down\<rparr> else s\<lparr>pending := Deleted\<rparr>)"

text \<open>A write that completes has sent the buffers of \<open>response_\<close>.\<close>

definition sent :: "session \<Rightarrow> session" where
  "sent s = s\<lparr>written := written s @ (case response s of None \<Rightarrow> [] | Some r \<Rightarrow> wire r)\<rparr>"

subsection \<open>The server\<close>

record ('c, 'w) server =
  accepting :: session              \<comment> \<open>the session that \<open>start_accept\<close> has made for the next connection\<close>
  sessions :: "session list"        \<comment> \<open>the sessions of the connections so far\<close>
  dispatcher :: "'c request_dispatcher"
  world :: 'w

definition start_accept :: "('c, 'w) server \<Rightarrow> ('c, 'w) server" where
  "start_accept sv = sv\<lparr>accepting := new_session\<rparr>"

definition handle_accept :: "bool \<Rightarrow> ('c, 'w) server \<Rightarrow> ('c, 'w) server" where
  "handle_accept error sv =
     start_accept (if \<not> error then sv\<lparr>sessions := sessions sv @ [start (accepting sv)]\<rparr> else sv)"

definition new_server :: "'c request_dispatcher \<Rightarrow> 'w \<Rightarrow> ('c, 'w) server" where
  "new_server rd w = start_accept \<lparr>accepting = new_session, sessions = [], dispatcher = rd, world = w\<rparr>"

definition put_session :: "nat \<Rightarrow> session \<Rightarrow> ('c, 'w) server \<Rightarrow> ('c, 'w) server" where
  "put_session i s sv = sv\<lparr>sessions := (sessions sv)[i := s]\<rparr>"

datatype event =
    Accept_done bool               \<comment> \<open>the error code is set\<close>
  | Read_done nat string           \<comment> \<open>the session and the bytes\<close>
  | Read_failed nat
  | Write_done nat
  | Write_failed nat

datatype ('c, 'w) run_state = Running "('c, 'w) server" | Terminated cpp_error

inductive step ::
  "('c, 'w, 'd, 'e) setting \<Rightarrow> ('c, 'w) run_state \<Rightarrow> event \<Rightarrow> ('c, 'w) run_state \<Rightarrow> bool" for S where
  accept: "step S (Running sv) (Accept_done error) (Running (handle_accept error sv))"
| read: "i < length (sessions sv) \<Longrightarrow> pending (sessions sv ! i) = Reading \<Longrightarrow>
    bytes \<noteq> [] \<Longrightarrow> length bytes \<le> max_length \<Longrightarrow>
    handle_read S False (length bytes) (receive bytes (sessions sv ! i)) (dispatcher sv) (world sv)
      = Some (Inr (s, rd), w) \<Longrightarrow>
    step S (Running sv) (Read_done i bytes) (Running (put_session i s (sv\<lparr>dispatcher := rd, world := w\<rparr>)))"
| read_raises: "i < length (sessions sv) \<Longrightarrow> pending (sessions sv ! i) = Reading \<Longrightarrow>
    bytes \<noteq> [] \<Longrightarrow> length bytes \<le> max_length \<Longrightarrow>
    handle_read S False (length bytes) (receive bytes (sessions sv ! i)) (dispatcher sv) (world sv)
      = Some (Inl e, w) \<Longrightarrow>
    step S (Running sv) (Read_done i bytes) (Terminated e)"
| read_fails: "i < length (sessions sv) \<Longrightarrow> pending (sessions sv ! i) = Reading \<Longrightarrow>
    handle_read S True 0 (sessions sv ! i) (dispatcher sv) (world sv) = Some (Inr (s, rd), w) \<Longrightarrow>
    step S (Running sv) (Read_failed i) (Running (put_session i s (sv\<lparr>dispatcher := rd, world := w\<rparr>)))"
| write_completes: "i < length (sessions sv) \<Longrightarrow> pending (sessions sv ! i) = Writing \<Longrightarrow>
    step S (Running sv) (Write_done i) (Running (put_session i (handle_write False (sent (sessions sv ! i))) sv))"
| write_fails: "i < length (sessions sv) \<Longrightarrow> pending (sessions sv ! i) = Writing \<Longrightarrow>
    step S (Running sv) (Write_failed i) (Running (put_session i (handle_write True (sessions sv ! i)) sv))"
| write_last_completes: "i < length (sessions sv) \<Longrightarrow> pending (sessions sv ! i) = Writing_last \<Longrightarrow>
    step S (Running sv) (Write_done i) (Running (put_session i (shutdown False (sent (sessions sv ! i))) sv))"
| write_last_fails: "i < length (sessions sv) \<Longrightarrow> pending (sessions sv ! i) = Writing_last \<Longrightarrow>
    step S (Running sv) (Write_failed i) (Running (put_session i (shutdown True (sessions sv ! i)) sv))"

inductive_cases stepE: "step S state event state'"
inductive_cases read_doneE: "step S (Running sv) (Read_done i bytes) state'"
inductive_cases write_doneE: "step S (Running sv) (Write_done i) state'"
inductive_cases terminatedE: "step S (Terminated e) event state'"

inductive run ::
  "('c, 'w, 'd, 'e) setting \<Rightarrow> ('c, 'w) run_state \<Rightarrow> event list \<Rightarrow> ('c, 'w) run_state \<Rightarrow> bool" for S where
  run_Nil: "run S state [] state"
| run_Cons: "step S state event state' \<Longrightarrow> run S state' events state'' \<Longrightarrow> run S state (event # events) state''"

inductive_cases run_NilE: "run S state [] state'"
inductive_cases run_ConsE: "run S state (event # events) state'"

lemma run_append: "run S state es state' \<Longrightarrow> run S state' fs state'' \<Longrightarrow> run S state (es @ fs) state''"
  by (induction rule: run.induct) (auto intro: run.intros)

lemma run_one: "step S state event state' \<Longrightarrow> run S state [event] state'"
  by (auto intro: run.intros)

subsection \<open>The main function\<close>

text \<open>
  \<open>fs\<close> gives the files that can be opened and \<open>listen\<close> the ports that can be bound; an exception of the \<open>try\<close> block is printed and
  the program returns 0. What \<open>Parse\<close> returns is ignored.
\<close>

datatype ('c, 'w) main_result = Exit int | Serve int "('c, 'w) server"

fun caught :: "cpp_error + ('c, 'w) main_result \<Rightarrow> cpp_error + ('c, 'w) main_result" where
  "caught (Inl UndefinedBehaviour) = Inl UndefinedBehaviour"
| "caught (Inl e) = Inr (Exit 0)"
| "caught (Inr r) = Inr r"

definition main_program ::
  "(string list \<Rightarrow> string list) \<Rightarrow> (string \<Rightarrow> 'c) \<Rightarrow> (string \<Rightarrow> string option) \<Rightarrow> (int \<Rightarrow> bool) \<Rightarrow> string list \<Rightarrow> 'w
   \<Rightarrow> cpp_error + ('c, 'w) main_result" where
  "main_program it connect_db fs listen argv w =
     caught (if length argv \<noteq> 2 then Inr (Exit 1)
       else and_then (parse_file fs (argv ! 1) new_config) (\<lambda>(accepted, cfg).
         if port_number cfg < 0 then Inr (Exit 1)
         else and_then (create_handler_mapping it connect_db cfg) (\<lambda>rd.
           if listen (port_number cfg) then Inr (Serve (port_number cfg) (new_server rd w)) else Inl SystemError)))"

lemma main_program_Serve:
  assumes "main_program it connect_db fs listen argv w = Inr (Serve port sv)"
  obtains accepted cfg rd where "length argv = 2" "parse_file fs (argv ! 1) new_config = Inr (accepted, cfg)"
    "0 \<le> port_number cfg" "create_handler_mapping it connect_db cfg = Inr rd" "listen (port_number cfg)"
    "port = port_number cfg" "sv = new_server rd w"
proof -
  have ran: "r = Inr (Serve port sv)" if "caught r = Inr (Serve port sv)" for r :: "cpp_error + ('a, 'b) main_result"
    using that by (cases r rule: caught.cases) simp_all
  from ran [OF assms [unfolded main_program_def]] that show thesis
    by (auto simp: and_then_Inr split: if_splits)
qed

end
