(* ===== verification/ServerFacts.thy ===== *)
theory ServerFacts
  imports Server DispatcherFacts
begin

text \<open>
  What holds of the server: its steps are deterministic, every session and the dispatcher keep their invariants
  (\<open>server_ok\<close>, through the locale \<open>stepping\<close>), a session that is shut down or deleted never acts again, and a request that
  arrives in any pieces is read as one (\<open>request_in_pieces\<close>).
\<close>

subsection \<open>Invariants of runs\<close>

locale stepping =
  fixes step :: "'s \<Rightarrow> 'e \<Rightarrow> 's \<Rightarrow> bool"
    and run :: "'s \<Rightarrow> 'e list \<Rightarrow> 's \<Rightarrow> bool"
    and inv :: "'s \<Rightarrow> bool"
  assumes run_Nil_iff: "run s [] t \<longleftrightarrow> t = s"
    and run_Cons_iff: "run s (e # es) u \<longleftrightarrow> (\<exists>t. step s e t \<and> run t es u)"
    and inv_step: "inv s \<Longrightarrow> step s e t \<Longrightarrow> inv t"
begin

lemma inv_run: "inv s \<Longrightarrow> run s es t \<Longrightarrow> inv t"
proof (induction es arbitrary: s)
  case Nil
  then show ?case by (simp add: run_Nil_iff)
next
  case (Cons e es)
  then obtain u where "step s e u" "run u es t" by (auto simp: run_Cons_iff)
  with Cons.IH [OF inv_step [OF Cons.prems(1)]] show ?case by blast
qed

end

lemma run_simps:
  "run S state [] state' \<longleftrightarrow> state' = state"
  "run S state (event # events) state' \<longleftrightarrow> (\<exists>t. step S state event t \<and> run S t events state')"
  by (auto intro: run.intros elim: run_NilE run_ConsE)

lemma step_deterministic:
  "step S state event state1 \<Longrightarrow> step S state event state2 \<Longrightarrow> state1 = state2"
  by (erule step.cases; erule step.cases; simp)

lemma run_deterministic: "run S state events state1 \<Longrightarrow> run S state events state2 \<Longrightarrow> state1 = state2"
proof (induction events arbitrary: state)
  case Nil
  then show ?case by (simp add: run_simps)
next
  case (Cons event events)
  then show ?case by (auto simp: run_simps) (metis step_deterministic)
qed

subsection \<open>The sessions of a server\<close>

lemma put_session_simps [simp]:
  "dispatcher (put_session i s sv) = dispatcher sv" "world (put_session i s sv) = world sv"
  "accepting (put_session i s sv) = accepting sv" "length (sessions (put_session i s sv)) = length (sessions sv)"
  "i < length (sessions sv) \<Longrightarrow> sessions (put_session i s sv) ! i = s"
  "j \<noteq> i \<Longrightarrow> sessions (put_session i s sv) ! j = sessions sv ! j"
  "put_session i t (put_session i s sv) = put_session i t sv"
  "put_session i (sessions sv ! i) sv = sv"
  "put_session i s (sv\<lparr>dispatcher := rd, world := w\<rparr>) = (put_session i s sv)\<lparr>dispatcher := rd, world := w\<rparr>"
  by (simp_all add: put_session_def)

lemma handle_accept_simps [simp]:
  "dispatcher (handle_accept error sv) = dispatcher sv" "world (handle_accept error sv) = world sv"
  "accepting (handle_accept error sv) = new_session"
  "sessions (handle_accept error sv) = sessions sv @ (if error then [] else [start (accepting sv)])"
  by (simp_all add: handle_accept_def start_accept_def)

lemma take_received [simp]: "take (length bytes) (data_buffer (receive bytes s)) = bytes"
  by (simp add: receive_def)

lemma receive_simps [simp]:
  "parser_builder (receive bytes s) = parser_builder s" "written (receive bytes s) = written s"
  "pending (receive bytes s) = pending s" "response (receive bytes s) = response s"
  by (simp_all add: receive_def)

text \<open>
  A session that has been started: the buffer ends with a NUL whatever has been read into it; while it reads, the parser
  has read the beginning of one request and nothing else; while an answer is written the answer is there, and between two
  requests the parser is a new one.
\<close>

definition session_ok :: "session \<Rightarrow> bool" where
  "session_ok s \<longleftrightarrow> pending s \<noteq> Accepting \<and>
     length (data_buffer s) = max_length + 1 \<and> data_buffer s ! max_length = CHR 0x00 \<and>
     (pending s = Reading \<longrightarrow>
        (\<exists>xs. feed rq_consume (new_request_parser, new_request_builder) xs = Some (parser_builder s))) \<and>
     (pending s = Writing \<longrightarrow> parser_builder s = (new_request_parser, new_request_builder)) \<and>
     (pending s = Writing \<or> pending s = Writing_last \<longrightarrow> response s \<noteq> None)"

lemma session_ok_start: "session_ok (start new_session)"
  by (auto simp: session_ok_def start_def async_read_some_def clear_buffer_def new_session_def max_length_def
      intro: exI [of _ "[]"])

lemma received_buffer:
  assumes "length (data_buffer s) = max_length + 1" "data_buffer s ! max_length = CHR 0x00" "length bytes \<le> max_length"
  shows "length (data_buffer (receive bytes s)) = max_length + 1 \<and> data_buffer (receive bytes s) ! max_length = CHR 0x00"
  using assms by (simp add: receive_def nth_append)

lemma handle_read_cases:
  assumes "handle_read S False n s rd w = Some (Inr (s', rd'), w')"
  obtains
    (good) p b rest r where "rq_parse (parser_builder s) (take n (data_buffer s)) = (Good, (p, b), rest)"
      "serve_request (iteration_order S) (handlers_env S) (rq_build_request (uninitialised_method S w) b) rd w = Some (Inr (r, rd'), w')"
      "s' = (if rb_keep_alive b then answer r Writing (s\<lparr>parser_builder := (rq_reset p, new_request_builder)\<rparr>)
             else answer r Writing_last (s\<lparr>parser_builder := (p, b)\<rparr>))"
  | (bad) m rest where "rq_parse (parser_builder s) (take n (data_buffer s)) = (Bad, m, rest)"
      "s' = answer (stock_response St_bad_request) Writing_last (s\<lparr>parser_builder := m\<rparr>)" "rd' = rd" "w' = w"
  | (more) m rest where "rq_parse (parser_builder s) (take n (data_buffer s)) = (Indeterminate, m, rest)"
      "s' = async_read_some (clear_buffer (s\<lparr>parser_builder := m\<rparr>))" "rd' = rd" "w' = w"
proof -
  obtain result p b rest where parse: "rq_parse (parser_builder s) (take n (data_buffer s)) = (result, (p, b), rest)"
    by (metis surj_pair)
  show thesis
  proof (cases result)
    case Good
    with parse assms good show thesis
      by (auto simp: handle_read_def and_then_Inr split: option.splits)
  next
    case Bad
    with parse assms bad show thesis by (simp add: handle_read_def)
  next
    case Indeterminate
    with parse assms more show thesis by (simp add: handle_read_def)
  qed
qed

lemma session_ok_handle_read:
  assumes "session_ok s" "pending s = Reading" "length bytes \<le> max_length"
    and "handle_read S False (length bytes) (receive bytes s) rd w = Some (Inr (s', rd'), w')"
  shows "session_ok s'"
proof -
  obtain xs where xs: "feed rq_consume (new_request_parser, new_request_builder) xs = Some (parser_builder s)"
    using assms(1,2) by (auto simp: session_ok_def)
  have buffer: "length (data_buffer (receive bytes s)) = max_length + 1"
      "data_buffer (receive bytes s) ! max_length = CHR 0x00"
    using assms(1,3) received_buffer [of s bytes] by (auto simp: session_ok_def)
  from assms(4) show ?thesis
  proof (cases rule: handle_read_cases)
    case (good p b rest r)
    have "rq_ok (parser_builder s)" by (rule rq.feed_ok [OF xs rq_ok_new])
    from rq_parse_Good_complete [OF this] good(1) have "rq_complete p b" by simp
    then have "rq_reset p = new_request_parser"
      by (simp add: rq_complete_def rq_reset_def new_request_parser_def)
    with good(3) buffer show ?thesis by (simp add: session_ok_def answer_def)
  next
    case (bad m rest)
    with buffer show ?thesis by (simp add: session_ok_def answer_def)
  next
    case (more m rest)
    from more(1) have "feed rq_consume (parser_builder s) bytes = Some m"
      by (simp add: rq_parse_Indeterminate)
    with xs have "feed rq_consume (new_request_parser, new_request_builder) (xs @ bytes) = Some m"
      by (simp add: feed_append)
    with more(2) show ?thesis
      by (auto simp: session_ok_def async_read_some_def clear_buffer_def max_length_def intro: exI [of _ "xs @ bytes"])
  qed
qed

text \<open>The invariant of the whole server, \<open>cfg\<close> being its configuration.\<close>

definition server_ok :: "NginxConfig \<Rightarrow> ('c, 'w) server \<Rightarrow> bool" where
  "server_ok cfg sv \<longleftrightarrow> accepting sv = new_session \<and> list_all session_ok (sessions sv) \<and>
     dispatcher_ok (dispatcher sv) \<and> config_of (dispatcher sv) = cfg"

fun running_ok :: "NginxConfig \<Rightarrow> ('c, 'w) run_state \<Rightarrow> bool" where
  "running_ok cfg (Running sv) = server_ok cfg sv"
| "running_ok cfg (Terminated e) = True"

lemma server_ok_put:
  assumes "server_ok cfg sv" "session_ok s"
  shows "server_ok cfg (put_session i s sv)"
  using assms unfolding server_ok_def put_session_def list_all_iff
  by (auto dest: set_update_subset_insert [THEN subsetD])

lemma server_ok_session: "server_ok cfg sv \<Longrightarrow> i < length (sessions sv) \<Longrightarrow> session_ok (sessions sv ! i)"
  by (simp add: server_ok_def list_all_length)

lemma session_ok_written:
  assumes "session_ok s"
  shows "pending s = Writing \<Longrightarrow> session_ok (handle_write False (sent s))"
    "session_ok (handle_write True s)" "session_ok (shutdown error (sent s))" "session_ok (shutdown error s)"
  using assms
  by (auto simp: session_ok_def handle_write_def shutdown_def sent_def async_read_some_def intro: exI [of _ "[]"])

lemma server_ok_accept: "server_ok cfg sv \<Longrightarrow> server_ok cfg (handle_accept error sv)"
  by (auto simp: server_ok_def session_ok_start)

lemma handle_read_dispatcher:
  assumes "iteration (iteration_order S)" "dispatcher_ok rd" "handle_read S False n s rd w = Some (Inr (s', rd'), w')"
  shows "dispatcher_ok rd' \<and> config_of rd' = config_of rd"
  using assms(3)
proof (cases rule: handle_read_cases)
  case (good p b rest r)
  from serve_request_ok [OF assms(1,2) good(2)] show ?thesis .
qed (use assms(2) in simp_all)

lemma running_ok_step:
  assumes "iteration (iteration_order S)" "running_ok cfg state" "step S state event state'"
  shows "running_ok cfg state'"
  using assms(3)
proof (cases rule: step.cases)
  case (read i sv bytes s rd w)
  have ok: "server_ok cfg sv" using assms(2) read(1) by simp
  then have d: "dispatcher_ok (dispatcher sv)" "config_of (dispatcher sv) = cfg" by (simp_all add: server_ok_def)
  have s: "session_ok s"
    by (rule session_ok_handle_read [OF server_ok_session [OF ok read(4)] read(5,7,8)])
  from handle_read_dispatcher [OF assms(1) d(1) read(8)] d(2) ok
  have "server_ok cfg (sv\<lparr>dispatcher := rd, world := w\<rparr>)" by (simp add: server_ok_def)
  from server_ok_put [OF this s] read(3) show ?thesis by simp
next
  case (accept sv error)
  with assms(2) show ?thesis by (simp add: server_ok_accept)
next
  case (read_fails i sv s rd w)
  with assms(2) have ok: "server_ok cfg sv" and "s = (sessions sv ! i)\<lparr>pending := Deleted\<rparr>"
    and same: "sv\<lparr>dispatcher := rd, world := w\<rparr> = sv" by (simp_all add: handle_read_def)
  then have "session_ok s" using server_ok_session [OF ok read_fails(4)] by (simp add: session_ok_def)
  from server_ok_put [OF ok this] read_fails(3) same show ?thesis by (simp only: running_ok.simps)
next
  case (write_completes i sv)
  then show ?thesis
    using assms(2) server_ok_put session_ok_written(1) server_ok_session by (metis running_ok.simps(1))
next
  case (write_fails i sv)
  then show ?thesis
    using assms(2) server_ok_put session_ok_written(2) server_ok_session by (metis running_ok.simps(1))
next
  case (write_last_completes i sv)
  then show ?thesis
    using assms(2) server_ok_put session_ok_written(3) server_ok_session by (metis running_ok.simps(1))
next
  case (write_last_fails i sv)
  then show ?thesis
    using assms(2) server_ok_put session_ok_written(4) server_ok_session by (metis running_ok.simps(1))
qed simp

interpretation running: stepping "step S" "run S" "\<lambda>state. iteration (iteration_order S) \<and> running_ok cfg state" for S cfg
  by unfold_locales (auto simp: run_simps running_ok_step)

text \<open>A session that is shut down or deleted stays as it is.\<close>

fun over :: "nat \<Rightarrow> session \<Rightarrow> ('c, 'w) run_state \<Rightarrow> bool" where
  "over i s (Running sv) \<longleftrightarrow>
     i < length (sessions sv) \<and> sessions sv ! i = s \<and> (pending s = Shut_down \<or> pending s = Deleted)"
| "over i s (Terminated e) \<longleftrightarrow> True"

lemma over_put:
  assumes "over i s (Running sv)" "j < length (sessions sv)" "pending (sessions sv ! j) \<notin> {Shut_down, Deleted}"
  shows "over i s (Running (put_session j t sv))"
proof -
  have "j \<noteq> i" using assms by auto
  with assms(1) show ?thesis by simp
qed

interpretation closed: stepping "step S" "run S" "over i s" for S i s
proof
  fix state event state'
  assume "over i s state" "step S state event state'"
  from this(2,1) show "over i s state'"
  proof (cases rule: step.cases)
    case (accept sv error)
    with \<open>over i s state\<close> show ?thesis by (auto simp: nth_append)
  next
    case (read j sv bytes t rd w)
    with \<open>over i s state\<close> have "over i s (Running (put_session j t sv))" by (intro over_put) simp_all
    with read(3) show ?thesis by simp
  next
    case (read_fails j sv t rd w)
    with \<open>over i s state\<close> have "over i s (Running (put_session j t sv))" by (intro over_put) simp_all
    with read_fails(3) show ?thesis by simp
  qed (use \<open>over i s state\<close> in \<open>auto intro!: over_put simp del: over.simps(1)\<close>)
qed (simp_all add: run_simps)

subsection \<open>Servers that nothing can stop\<close>

text \<open>With handlers that call no other server and no database, every request is answered.\<close>

definition local_handler :: "'c handler \<Rightarrow> bool" where
  "local_handler h \<longleftrightarrow> (\<forall>p. h \<noteq> ProxyHandler p) \<and> (\<forall>b. h \<noteq> BlogHandler b)"

definition quiet :: "'c request_dispatcher \<Rightarrow> bool" where
  "quiet rd \<longleftrightarrow> dispatcher_ok rd \<and> (\<exists>e. error_handler rd = Error404Handler e) \<and>
     (\<forall>k h. map_of (table rd) k = Some (Some h) \<longrightarrow> local_handler h) \<and>
     (status_handler_enabled rd \<longrightarrow> (\<exists>h. map_of (table rd) ''/status'' = Some (Some (StatusHandler h))))"

lemma handle_request_local:
  "local_handler h \<Longrightarrow> \<exists>r. handle_request env h request w = Some (Inr (r, h), w)"
  by (cases h) (auto simp: local_handler_def pure_def)

lemma same_entry_local:
  "same_entry e (Some (Some h')) \<Longrightarrow> (\<And>h. e = Some (Some h) \<Longrightarrow> local_handler h) \<Longrightarrow> local_handler h'"
  unfolding same_entry_def local_handler_def by (elim disjE exE conjE) simp_all

lemma serve_request_quiet:
  assumes "iteration it" "quiet rd"
  obtains r rd' where "serve_request it env request rd w = Some (Inr (r, rd'), w)" "quiet rd'"
proof -
  have ok: "dispatcher_ok rd" and enabled: "status_handler_enabled rd \<Longrightarrow>
      \<exists>h. map_of (table rd) ''/status'' = Some (Some (StatusHandler h))"
    using assms(2) by (auto simp: quiet_def)
  obtain e where e: "error_handler rd = Error404Handler e" using assms(2) by (auto simp: quiet_def)
  obtain h where get: "get_handler it (uri_of request) rd = (Some h, rd)" using get_handler_ok [OF assms(1) ok] by blast
  then have "local_handler h" using assms(2) e
    by (auto simp: get_handler_def table_index_def quiet_def local_handler_def split: option.splits)
  then obtain r where r: "handle_request env h request w = Some (Inr (r, h), w)"
    using handle_request_local [of h env request w] by blast
  let ?rd = "put_handler it (uri_of request) h rd"
  have "same_entry (map_of (table rd) ''/status'') (map_of (table ?rd) ''/status'')"
    by (rule put_handler_table [OF get]) simp
  then have "status_handler_enabled rd \<Longrightarrow> \<exists>h'. map_of (table ?rd) ''/status'' = Some (Some (StatusHandler h'))"
    using enabled by (auto simp: same_entry_def)
  then obtain rd' where "record_request (uri_of request) (code_of r) ?rd = Inr rd'"
    by (cases "status_handler_enabled rd") (auto simp: record_request_def get_status_handler_def table_index_def)
  with get r have served: "serve_request it env request rd w = Some (Inr (r, rd'), w)" by (simp add: serve_request_def)
  note same = serve_request_table [OF assms(1) ok served]
  have "local_handler h'" if "map_of (table rd') k = Some (Some h')" for k h'
    using same_entry_local [of "map_of (table rd) k" h'] same [of k] that assms(2) by (simp add: quiet_def)
  moreover have "\<exists>h'. map_of (table rd') ''/status'' = Some (Some (StatusHandler h'))" if "status_handler_enabled rd"
    using same [of "''/status''"] enabled [OF that] by (auto simp: same_entry_def)
  ultimately have "quiet rd'"
    using serve_request_ok [OF assms(1) ok served] serve_request_error_handler [OF assms(1) ok served e]
    by (auto simp: quiet_def)
  with served that show thesis by blast
qed

definition only_local :: "NginxConfig \<Rightarrow> bool" where
  "only_local cfg \<longleftrightarrow> proxy_locations cfg = [] \<and> blog_ips cfg = [] \<and>
     (status_locations cfg = [] \<or>
      ''/status'' \<in> set (status_locations cfg) \<and> only_type cfg ''StatusHandler'' ''/status'')"

lemma init_handler_local:
  assumes "l \<in> set (locations_of cfg ty)" "proxy_locations cfg = []" "blog_ips cfg = []"
    and "init_handler it connect_db cfg ty l = Inr h"
  shows "local_handler h"
proof -
  have "ty \<noteq> ''ProxyHandler''" "ty \<noteq> ''BlogHandler''" using assms(1-3) by auto
  with located_type [OF assms(1)] assms(4) show ?thesis unfolding handler_kinds_def list.set
    by (elim insertE emptyE) (auto simp: init_handler_def local_handler_def and_then_Inr)
qed

lemma quiet_mapping:
  assumes "iteration it" "config_ok cfg" "only_local cfg" "create_handler_mapping it connect_db cfg = Inr rd"
  shows "quiet rd"
proof -
  note facts = mapping_table [OF assms(1,2,4)]
  have none: "proxy_locations cfg = []" "blog_ips cfg = []" using assms(3) by (simp_all add: only_local_def)
  have "local_handler h" if there: "map_of (table rd) k = Some (Some h)" for k h
  proof (cases "\<exists>ty. k \<in> set (locations_of cfg ty)")
    case True
    then obtain ty where "k \<in> set (locations_of cfg ty)" ..
    from facts(4) [OF this] there obtain ty' where "k \<in> set (locations_of cfg ty')"
      "init_handler it connect_db cfg ty' k = Inr h" unfolding entered_def by auto
    from init_handler_local [OF this(1) none this(2)] show ?thesis .
  next
    case False
    from facts(5) [OF this] there show ?thesis by simp
  qed
  moreover have "\<exists>h. map_of (table rd) ''/status'' = Some (Some (StatusHandler h))" if "status_handler_enabled rd"
  proof -
    have "''/status'' \<in> set (locations_of cfg ''StatusHandler'')" "only_type cfg ''StatusHandler'' ''/status''"
      using that facts(3) assms(3) by (auto simp: only_local_def)
    from mapping_only_type [OF assms(1,2,4) this(2,1)] show ?thesis by (auto simp: init_handler_def)
  qed
  ultimately show ?thesis
    using dispatcher_ok_mapping [OF assms(1,2,4)] facts(2) by (auto simp: quiet_def)
qed

fun quiet_state :: "('c, 'w) run_state \<Rightarrow> bool" where
  "quiet_state (Running sv) = quiet (dispatcher sv)"
| "quiet_state (Terminated e) = False"

lemma handle_read_quiet:
  assumes "iteration (iteration_order S)" "quiet rd"
  shows "\<exists>s' rd'. handle_read S error n s rd w = Some (Inr (s', rd'), w) \<and> quiet rd'"
proof -
  obtain result p b rest where parse: "rq_parse (parser_builder s) (take n (data_buffer s)) = (result, (p, b), rest)"
    by (metis surj_pair)
  obtain r rd' where "serve_request (iteration_order S) (handlers_env S)
      (rq_build_request (uninitialised_method S w) b) rd w = Some (Inr (r, rd'), w)" "quiet rd'"
    using serve_request_quiet [OF assms] .
  with parse assms(2) show ?thesis by (cases error; cases result) (simp_all add: handle_read_def)
qed

interpretation serving: stepping "step S" "run S" "\<lambda>state. iteration (iteration_order S) \<and> quiet_state state" for S
proof
  fix state event state'
  assume "iteration (iteration_order S) \<and> quiet_state state" "step S state event state'"
  from this(2,1) show "iteration (iteration_order S) \<and> quiet_state state'"
  proof (cases rule: step.cases)
    case (read i sv bytes s rd w)
    with \<open>iteration (iteration_order S) \<and> quiet_state state\<close> show ?thesis
      using handle_read_quiet [of S "dispatcher sv" False "length bytes" "receive bytes (sessions sv ! i)" "world sv"] by auto
  next
    case (read_raises i sv bytes e w)
    with \<open>iteration (iteration_order S) \<and> quiet_state state\<close> show ?thesis
      using handle_read_quiet [of S "dispatcher sv" False "length bytes" "receive bytes (sessions sv ! i)" "world sv"] by auto
  next
    case (read_fails i sv s rd w)
    with \<open>iteration (iteration_order S) \<and> quiet_state state\<close> show ?thesis
      using handle_read_quiet [of S "dispatcher sv" True 0 "sessions sv ! i" "world sv"] by auto
  qed (use \<open>iteration (iteration_order S) \<and> quiet_state state\<close> in simp_all)
qed (simp_all add: run_simps)

subsection \<open>A request in pieces\<close>

definition piece_ok :: "string \<Rightarrow> bool" where
  "piece_ok bytes \<longleftrightarrow> bytes \<noteq> [] \<and> length bytes \<le> max_length"

text \<open>While the request is incomplete, reads only move the parser.\<close>

lemma reads_in_progress:
  assumes "list_all piece_ok pieces" "i < length (sessions sv)" "pending (sessions sv ! i) = Reading"
    and "feed rq_consume (parser_builder (sessions sv ! i)) (concat pieces) = Some m"
  shows "\<exists>d. run S (Running sv) (map (Read_done i) pieces)
    (Running (put_session i ((sessions sv ! i)\<lparr>parser_builder := m, data_buffer := d\<rparr>) sv))"
  using assms
proof (induction pieces arbitrary: sv)
  case Nil
  then have "m = parser_builder (sessions sv ! i)" by simp
  then have "(sessions sv ! i)\<lparr>parser_builder := m, data_buffer := data_buffer (sessions sv ! i)\<rparr> = sessions sv ! i" by simp
  then have "run S (Running sv) [] (Running (put_session i ((sessions sv ! i)
      \<lparr>parser_builder := m, data_buffer := data_buffer (sessions sv ! i)\<rparr>) sv))"
    by (simp only: put_session_simps run_simps)
  then show ?case unfolding list.map by blast
next
  case (Cons bytes pieces)
  let ?s = "sessions sv ! i"
  from Cons.prems obtain m1 where m1: "feed rq_consume (parser_builder ?s) bytes = Some m1"
      "feed rq_consume m1 (concat pieces) = Some m"
    by (auto simp: feed_append split: option.splits)
  let ?d = "replicate (max_length + 1) CHR 0x00"
  let ?s1 = "?s\<lparr>parser_builder := m1, data_buffer := ?d\<rparr>"
  have "handle_read S False (length bytes) (receive bytes ?s) (dispatcher sv) (world sv) =
      Some (Inr (?s1, dispatcher sv), world sv)"
    using m1(1) [folded rq_parse_Indeterminate [of _ _ _ "[]", simplified]] Cons.prems(3)
    by (simp add: handle_read_def async_read_some_def clear_buffer_def receive_def)
  from step.read [OF Cons.prems(2,3) _ _ this] Cons.prems(1)
  have first: "step S (Running sv) (Read_done i bytes) (Running (put_session i ?s1 sv))"
    by (simp add: piece_ok_def)
  have "\<exists>d. run S (Running (put_session i ?s1 sv)) (map (Read_done i) pieces)
      (Running (put_session i ((sessions (put_session i ?s1 sv) ! i)\<lparr>parser_builder := m, data_buffer := d\<rparr>) (put_session i ?s1 sv)))"
    using Cons.prems m1(2) by (intro Cons.IH) simp_all
  with first Cons.prems(2) show ?case by (auto simp: run_simps)
qed

text \<open>The last read calls the handler, once.\<close>

lemma last_read:
  assumes "i < length (sessions sv)" "pending (sessions sv ! i) = Reading" "piece_ok bytes"
    and "rq_parse (parser_builder (sessions sv ! i)) bytes = (Good, (p, b), [])"
    and "serve_request (iteration_order S) (handlers_env S) (rq_build_request (uninitialised_method S (world sv)) b)
      (dispatcher sv) (world sv) = Some (Inr (r, rd), w)"
  shows "\<exists>d. step S (Running sv) (Read_done i bytes) (Running (put_session i
    (answer r (if rb_keep_alive b then Writing else Writing_last) ((sessions sv ! i)
       \<lparr>data_buffer := d, parser_builder := if rb_keep_alive b then (rq_reset p, new_request_builder) else (p, b)\<rparr>))
    (sv\<lparr>dispatcher := rd, world := w\<rparr>)))"
proof -
  let ?s = "sessions sv ! i"
  have "handle_read S False (length bytes) (receive bytes ?s) (dispatcher sv) (world sv) =
    Some (Inr (answer r (if rb_keep_alive b then Writing else Writing_last) (?s
       \<lparr>data_buffer := data_buffer (receive bytes ?s),
        parser_builder := if rb_keep_alive b then (rq_reset p, new_request_builder) else (p, b)\<rparr>), rd), w)"
    using assms(4,5) by (simp add: handle_read_def receive_def)
  from step.read [OF assms(1,2) _ _ this] assms(3) show ?thesis unfolding piece_ok_def by blast
qed

lemma feed_before_Good:
  assumes "rq_parse s (xs @ ys) = (Good, t, rest)" "ys \<noteq> []"
  obtains u where "feed rq_consume s xs = Some u" "rq_parse u ys = (Good, t, [])"
proof -
  from assms(1) obtain zs c u where z: "xs @ ys = zs @ [c]" "feed rq_consume s zs = Some u" and rest: "rest = []"
    by (auto simp: rq_parse_Good)
  have "zs = xs @ butlast ys" using z(1) assms(2) by (metis butlast_append butlast_snoc)
  with z(2) obtain v where v: "feed rq_consume s xs = Some v" by (auto simp: feed_append split: option.splits)
  from rq_parse_append [OF v, of ys] assms(1) rest v that show thesis by simp
qed

lemma request_in_pieces:
  assumes "i < length (sessions sv)" "pending (sessions sv ! i) = Reading" "list_all piece_ok pieces"
    and "rq_parse (parser_builder (sessions sv ! i)) (concat pieces) = (Good, (p, b), [])"
    and "serve_request (iteration_order S) (handlers_env S) (rq_build_request (uninitialised_method S (world sv)) b)
      (dispatcher sv) (world sv) = Some (Inr (r, rd), w)"
  shows "\<exists>d. run S (Running sv) (map (Read_done i) pieces) (Running (put_session i
    (answer r (if rb_keep_alive b then Writing else Writing_last) ((sessions sv ! i)
       \<lparr>data_buffer := d, parser_builder := if rb_keep_alive b then (rq_reset p, new_request_builder) else (p, b)\<rparr>))
    (sv\<lparr>dispatcher := rd, world := w\<rparr>)))"
proof -
  have "pieces \<noteq> []" using assms(4) by auto
  then obtain init bytes where pieces: "pieces = init @ [bytes]" by (metis rev_exhaust)
  have ok: "list_all piece_ok init" "piece_ok bytes" using assms(3) by (simp_all add: pieces)
  have "rq_parse (parser_builder (sessions sv ! i)) (concat init @ bytes) = (Good, (p, b), [])" "bytes \<noteq> []"
    using assms(4) ok(2) by (simp_all add: pieces piece_ok_def)
  then obtain m where m: "feed rq_consume (parser_builder (sessions sv ! i)) (concat init) = Some m"
      "rq_parse m bytes = (Good, (p, b), [])"
    by (rule feed_before_Good)
  from reads_in_progress [OF ok(1) assms(1,2) m(1)] obtain d where
    first: "run S (Running sv) (map (Read_done i) init)
      (Running (put_session i ((sessions sv ! i)\<lparr>parser_builder := m, data_buffer := d\<rparr>) sv))" by blast
  from last_read [of i "put_session i ((sessions sv ! i)\<lparr>parser_builder := m, data_buffer := d\<rparr>) sv" bytes p b S r rd w]
    assms(1,2,5) ok(2) m(2) obtain d' where
    "step S (Running (put_session i ((sessions sv ! i)\<lparr>parser_builder := m, data_buffer := d\<rparr>) sv)) (Read_done i bytes)
      (Running (put_session i
        (answer r (if rb_keep_alive b then Writing else Writing_last) ((sessions sv ! i)
          \<lparr>data_buffer := d', parser_builder := if rb_keep_alive b then (rq_reset p, new_request_builder) else (p, b)\<rparr>))
        (sv\<lparr>dispatcher := rd, world := w\<rparr>)))"
    by auto
  from run_append [OF first run_one [OF this]] show ?thesis by (auto simp: pieces)
qed

subsection \<open>Requests as text\<close>

record text_request =
  tr_method :: string
  tr_uri :: string
  tr_major :: nat
  tr_minor :: nat
  tr_headers :: "header list"
  tr_body :: string

definition print_request :: "text_request \<Rightarrow> string" where
  "print_request t =
     head_of_request (tr_method t) (tr_uri t) (tr_major t) (tr_minor t) (tr_headers t) @ crlf @ tr_body t"

definition printable :: "text_request \<Rightarrow> bool" where
  "printable t \<longleftrightarrow> token (tr_method t) \<and> method_of_name None (tr_method t) \<noteq> None \<and> uri_text (tr_uri t) \<and>
     list_all header_accepted (tr_headers t) \<and>
     int (length (tr_body t)) = sint (declared_length (tr_headers t)) \<and>
     in_int_range (int (tr_major t)) \<and> in_int_range (int (tr_minor t))"

definition asks_keep_alive :: "text_request \<Rightarrow> bool" where
  "asks_keep_alive t \<longleftrightarrow> list_ex is_keep_alive (tr_headers t)"

definition request_of :: "text_request \<Rightarrow> Request" where
  "request_of t = \<lparr>method_of = method_of_name None (tr_method t), uri_of = tr_uri t,
     version_of = ''HTTP/'' @ dec_string (tr_major t) @ ''.'' @ dec_string (tr_minor t),
     headers_of = assign_headers (tr_headers t), body_of = tr_body t\<rparr>"

lemma print_request_parsed:
  assumes "printable t"
  shows "\<exists>p b. rq_parse (new_request_parser, new_request_builder) (print_request t) = (Good, (p, b), [])
    \<and> rq_reset p = new_request_parser \<and> rb_keep_alive b = asks_keep_alive t \<and> rq_build_request junk b = request_of t"
proof -
  have "method_of_name junk (tr_method t) = method_of_name None (tr_method t)"
    using assms by (auto simp: printable_def method_of_name_def)
  moreover have "token (tr_method t)" "uri_text (tr_uri t)" "\<forall>h\<in>set (tr_headers t). header_accepted h"
    "int (length (tr_body t)) = sint (declared_length (tr_headers t))"
    "in_int_range (int (tr_major t))" "in_int_range (int (tr_minor t))"
    using assms by (simp_all add: printable_def list_all_iff)
  from rq_read_back [OF this, of junk] obtain p b where
    "rq_parse (new_request_parser, new_request_builder) (print_request t) = (Good, (p, b), [])"
    "rq_reset p = new_request_parser" "rb_keep_alive b = (\<exists>h\<in>set (tr_headers t). is_keep_alive h)"
    "rq_build_request junk b = \<lparr>method_of = method_of_name junk (tr_method t), uri_of = tr_uri t,
          version_of = ''HTTP/'' @ dec_string (tr_major t) @ ''.'' @ dec_string (tr_minor t),
          headers_of = assign_headers (tr_headers t), body_of = tr_body t\<rparr>"
    unfolding print_request_def by blast
  ultimately show ?thesis by (auto simp: request_of_def asks_keep_alive_def list_ex_iff)
qed

text \<open>One request and its answer, on a connection that is between two requests.\<close>

definition exchange_events :: "nat \<Rightarrow> string list \<Rightarrow> event list" where
  "exchange_events i pieces = map (Read_done i) pieces @ [Write_done i]"

definition between_requests :: "nat \<Rightarrow> ('c, 'w) server \<Rightarrow> bool" where
  "between_requests i sv \<longleftrightarrow> i < length (sessions sv) \<and> pending (sessions sv ! i) = Reading \<and>
     parser_builder (sessions sv ! i) = (new_request_parser, new_request_builder)"

definition in_pieces :: "string list \<Rightarrow> text_request \<Rightarrow> bool" where
  "in_pieces pieces t \<longleftrightarrow> list_all piece_ok pieces \<and> concat pieces = print_request t"

lemma exchange_done:
  assumes "between_requests i sv" "printable t" "asks_keep_alive t" "in_pieces pieces t"
    and "serve_request (iteration_order S) (handlers_env S) (request_of t) (dispatcher sv) (world sv) = Some (Inr (r, rd), w)"
  obtains d where "run S (Running sv) (exchange_events i pieces) (Running (put_session i
    ((sessions sv ! i)\<lparr>data_buffer := d, response := Some r, written := written (sessions sv ! i) @ wire r\<rparr>)
    (sv\<lparr>dispatcher := rd, world := w\<rparr>)))"
proof -
  let ?s = "sessions sv ! i"
  have i: "i < length (sessions sv)" "pending ?s = Reading"
    and fresh: "parser_builder ?s = (new_request_parser, new_request_builder)"
    using assms(1) by (simp_all add: between_requests_def)
  obtain p b where parse: "rq_parse (parser_builder ?s) (concat pieces) = (Good, (p, b), [])"
    and b: "rq_reset p = new_request_parser" "rb_keep_alive b"
      "rq_build_request (uninitialised_method S (world sv)) b = request_of t"
    using print_request_parsed [OF assms(2), of "uninitialised_method S (world sv)"] assms(3,4)
    by (auto simp: fresh in_pieces_def)
  have pieces: "list_all piece_ok pieces" using assms(4) by (simp add: in_pieces_def)
  from request_in_pieces [OF i pieces parse, of S r rd w] assms(5) b obtain d where
    reads: "run S (Running sv) (map (Read_done i) pieces) (Running (put_session i
      (answer r Writing (?s\<lparr>data_buffer := d, parser_builder := (new_request_parser, new_request_builder)\<rparr>))
      (sv\<lparr>dispatcher := rd, world := w\<rparr>)))"
    by auto
  let ?sv = "put_session i
      (answer r Writing (?s\<lparr>data_buffer := d, parser_builder := (new_request_parser, new_request_builder)\<rparr>))
      (sv\<lparr>dispatcher := rd, world := w\<rparr>)"
  have "step S (Running ?sv) (Write_done i) (Running (put_session i (handle_write False (sent (sessions ?sv ! i))) ?sv))"
    by (rule step.write_completes) (use i in \<open>simp_all add: answer_def\<close>)
  moreover have "handle_write False (sent (sessions ?sv ! i)) =
      ?s\<lparr>data_buffer := d, response := Some r, written := written ?s @ wire r\<rparr>"
    using i fresh by (simp add: answer_def handle_write_def sent_def async_read_some_def)
  ultimately have "step S (Running ?sv) (Write_done i) (Running (put_session i
    (?s\<lparr>data_buffer := d, response := Some r, written := written ?s @ wire r\<rparr>) (sv\<lparr>dispatcher := rd, world := w\<rparr>)))"
    by simp
  from run_append [OF reads run_one [OF this]] that show thesis by (simp add: exchange_events_def)
qed

text \<open>Any number of requests and answers.\<close>

lemma exchanges_done:
  assumes "between_requests i sv" "list_all printable ts" "list_all asks_keep_alive ts" "list_all2 in_pieces pieces ts"
    and "serve_all (iteration_order S) (handlers_env S) (map request_of ts) (dispatcher sv) (world sv)
      = Some (Inr (responses, rd), w)"
  shows "\<exists>sv'. run S (Running sv) (concat (map (exchange_events i) pieces)) (Running sv') \<and>
    between_requests i sv' \<and> dispatcher sv' = rd \<and> world sv' = w \<and>
    written (sessions sv' ! i) = written (sessions sv ! i) @ concat (map wire responses) \<and>
    (\<forall>j. j \<noteq> i \<longrightarrow> sessions sv' ! j = sessions sv ! j)"
  using assms
proof (induction ts arbitrary: pieces sv responses)
  case Nil
  then show ?case by (auto simp: run_simps intro: exI [of _ sv])
next
  case (Cons t ts)
  from Cons.prems(4) obtain ps pss where pieces: "pieces = ps # pss" "in_pieces ps t" "list_all2 in_pieces pss ts"
    by (auto simp: list_all2_Cons2)
  from Cons.prems(5) obtain r rd1 w1 rest where
    one: "serve_request (iteration_order S) (handlers_env S) (request_of t) (dispatcher sv) (world sv) = Some (Inr (r, rd1), w1)"
    and rest: "serve_all (iteration_order S) (handlers_env S) (map request_of ts) rd1 w1 = Some (Inr (rest, rd), w)"
      "responses = r # rest"
    unfolding list.map by (rule serve_all_Cons)
  have t: "printable t" "asks_keep_alive t" "list_all printable ts" "list_all asks_keep_alive ts" using Cons.prems(2,3) by simp_all
  obtain d where first: "run S (Running sv) (exchange_events i ps) (Running (put_session i
    ((sessions sv ! i)\<lparr>data_buffer := d, response := Some r, written := written (sessions sv ! i) @ wire r\<rparr>)
    (sv\<lparr>dispatcher := rd1, world := w1\<rparr>)))"
    by (rule exchange_done [OF Cons.prems(1) t(1,2) pieces(2) one])
  let ?sv = "put_session i
    ((sessions sv ! i)\<lparr>data_buffer := d, response := Some r, written := written (sessions sv ! i) @ wire r\<rparr>)
    (sv\<lparr>dispatcher := rd1, world := w1\<rparr>)"
  have again: "between_requests i ?sv" and len: "i < length (sessions sv)"
    using Cons.prems(1) by (simp_all add: between_requests_def)
  have "serve_all (iteration_order S) (handlers_env S) (map request_of ts) (dispatcher ?sv) (world ?sv) = Some (Inr (rest, rd), w)"
    using rest(1) by simp
  from Cons.IH [OF again t(3,4) pieces(3) this] obtain sv' where
    "run S (Running ?sv) (concat (map (exchange_events i) pss)) (Running sv')" "between_requests i sv'"
    "dispatcher sv' = rd" "world sv' = w"
    "written (sessions sv' ! i) = written (sessions ?sv ! i) @ concat (map wire rest)"
    "\<forall>j. j \<noteq> i \<longrightarrow> sessions sv' ! j = sessions ?sv ! j"
    by blast
  with run_append [OF first this(1)] len rest(2) show ?case by (intro exI [of _ sv']) (simp add: pieces(1))
qed

end
