(* ===== verification/ServerHistory.thy ===== *)
theory ServerHistory
  imports ServerFacts
begin

text \<open>
  An abstract server that knows nothing of connections, reads and writes: requests are served one after the other, each at
  once. \<open>explained\<close> relates a run of the server to a history of such requests: the bytes each client has sent are the texts of
  its requests in the history and the beginning of one more, the dispatcher and the world are what serving the history
  leaves, and the bytes each client is sent are the answers of the history. Every run is explained (\<open>run_explained\<close>).
\<close>

subsection \<open>Histories\<close>

datatype entry =
    Served nat string Request Response    \<comment> \<open>the session, the bytes, the request they are, the answer\<close>
  | Rejected nat string

fun entry_session :: "entry \<Rightarrow> nat" where
  "entry_session (Served i text request r) = i"
| "entry_session (Rejected i text) = i"

fun entry_text :: "entry \<Rightarrow> string" where
  "entry_text (Served i text request r) = text"
| "entry_text (Rejected i text) = text"

fun entry_answer :: "entry \<Rightarrow> Response" where
  "entry_answer (Served i text request r) = r"
| "entry_answer (Rejected i text) = stock_response St_bad_request"

text \<open>The text of an entry is a request, read by a new parser from its first to its last byte, or is rejected at some byte.\<close>

fun entry_ok :: "entry \<Rightarrow> bool" where
  "entry_ok (Served i text request r) \<longleftrightarrow> (\<exists>p b junk.
     rq_parse (new_request_parser, new_request_builder) text = (Good, (p, b), []) \<and> request = rq_build_request junk b)"
| "entry_ok (Rejected i text) \<longleftrightarrow>
     (\<exists>m rest. rq_parse (new_request_parser, new_request_builder) text = (Bad, m, rest))"

definition of_session :: "nat \<Rightarrow> entry list \<Rightarrow> entry list" where
  "of_session i = filter (\<lambda>e. entry_session e = i)"

fun served_requests :: "entry list \<Rightarrow> Request list" where
  "served_requests [] = []"
| "served_requests (Served i text request r # es) = request # served_requests es"
| "served_requests (Rejected i text # es) = served_requests es"

fun served_answers :: "entry list \<Rightarrow> Response list" where
  "served_answers [] = []"
| "served_answers (Served i text request r # es) = r # served_answers es"
| "served_answers (Rejected i text # es) = served_answers es"

lemma of_session_append [simp]: "of_session i (es @ fs) = of_session i es @ of_session i fs"
  by (simp add: of_session_def)

lemma of_session_one [simp]: "of_session i [e] = (if entry_session e = i then [e] else [])"
  by (simp add: of_session_def)

lemma served_append [simp]:
  "served_requests (es @ fs) = served_requests es @ served_requests fs"
  "served_answers (es @ fs) = served_answers es @ served_answers fs"
  by (induction es rule: served_requests.induct) simp_all

text \<open>What a client has sent.\<close>

fun received :: "nat \<Rightarrow> event list \<Rightarrow> string" where
  "received i [] = []"
| "received i (Read_done j bytes # events) = (if j = i then bytes @ received i events else received i events)"
| "received i (_ # events) = received i events"

lemma received_append [simp]: "received i (es @ fs) = received i es @ received i fs"
  by (induction i es rule: received.induct) simp_all

lemma serve_all_snoc:
  assumes "serve_all it env requests rd w = Some (Inr (responses, rd1), w1)"
    and "serve_request it env request rd1 w1 = Some (Inr (r, rd2), w2)"
  shows "serve_all it env (requests @ [request]) rd w = Some (Inr (responses @ [r], rd2), w2)"
  using assms(1)
proof (induction requests arbitrary: rd w responses)
  case Nil
  with assms(2) show ?case by simp
next
  case (Cons request' requests)
  from Cons.prems obtain r' rd' w' rest where "serve_request it env request' rd w = Some (Inr (r', rd'), w')"
    "serve_all it env requests rd' w' = Some (Inr (rest, rd1), w1)" "responses = r' # rest"
    by (rule serve_all_Cons)
  with Cons.IH [of rd' w' rest] show ?case by simp
qed

subsection \<open>What a history explains\<close>

text \<open>A session: \<open>sent_text\<close> is what its client has sent, \<open>es\<close> are its entries.\<close>

definition session_explained :: "string \<Rightarrow> entry list \<Rightarrow> session \<Rightarrow> bool" where
  "session_explained sent_text es s \<longleftrightarrow>
     (let texts = concat (map entry_text es); answers = concat (map (wire \<circ> entry_answer) es)
      in case pending s of
           Accepting \<Rightarrow> False
         | Reading \<Rightarrow> (\<exists>xs. sent_text = texts @ xs \<and>
             feed rq_consume (new_request_parser, new_request_builder) xs = Some (parser_builder s)) \<and> written s = answers
         | Writing \<Rightarrow> sent_text = texts \<and> parser_builder s = (new_request_parser, new_request_builder) \<and>
             (\<exists>r. response s = Some r \<and> written s @ wire r = answers)
         | Writing_last \<Rightarrow> sent_text = texts \<and> (\<exists>r. response s = Some r \<and> written s @ wire r = answers)
         | Shut_down \<Rightarrow> sent_text = texts \<and> written s = answers
         | Deleted \<Rightarrow> prefix texts sent_text \<and> prefix (written s) answers)"

definition explained ::
  "('c, 'w, 'd, 'e) setting \<Rightarrow> 'c request_dispatcher \<Rightarrow> 'w \<Rightarrow> event list \<Rightarrow> entry list \<Rightarrow> ('c, 'w) server \<Rightarrow> bool" where
  "explained S rd w events es sv \<longleftrightarrow> list_all entry_ok es \<and>
     serve_all (iteration_order S) (handlers_env S) (served_requests es) rd w
       = Some (Inr (served_answers es, dispatcher sv), world sv) \<and>
     accepting sv = new_session \<and>
     (\<forall>i. if i < length (sessions sv) then session_explained (received i events) (of_session i es) (sessions sv ! i)
          else received i events = [] \<and> of_session i es = [])"

lemma explained_start: "explained S rd w [] [] (new_server rd w)"
  by (simp add: explained_def new_server_def start_accept_def of_session_def)

lemma run_snoc: "run S state (events @ [event]) state' \<longleftrightarrow> (\<exists>t. run S state events t \<and> step S t event state')"
  by (induction events arbitrary: state) (auto simp: run_simps)

text \<open>A step that touches session \<open>i\<close> only.\<close>

lemma explained_put:
  assumes "explained S rd w events es sv" "i < length (sessions sv)"
    and "\<And>j. received j [event] = (if j = i then bytes else [])"
    and "list_all entry_ok fs" "\<And>e. e \<in> set fs \<Longrightarrow> entry_session e = i"
    and "serve_all (iteration_order S) (handlers_env S) (served_requests (es @ fs)) rd w
       = Some (Inr (served_answers (es @ fs), rd'), w')"
    and "session_explained (received i events @ bytes) (of_session i es @ fs) s"
  shows "explained S rd w (events @ [event]) (es @ fs) (put_session i s (sv\<lparr>dispatcher := rd', world := w'\<rparr>))"
proof -
  have mine: "of_session i fs = fs" using assms(5) by (simp add: of_session_def filter_id_conv)
  have others: "of_session j fs = []" if "j \<noteq> i" for j
    using assms(5) that by (auto simp: of_session_def filter_empty_conv)
  let ?sv = "put_session i s (sv\<lparr>dispatcher := rd', world := w'\<rparr>)"
  have each: "if j < length (sessions ?sv) then session_explained (received j (events @ [event])) (of_session j (es @ fs))
      (sessions ?sv ! j) else received j (events @ [event]) = [] \<and> of_session j (es @ fs) = []" for j
  proof (cases "j = i")
    case True
    with assms(2,3,7) mine show ?thesis by simp
  next
    case False
    with assms(1) others [OF False] show ?thesis by (simp add: explained_def assms(3))
  qed
  show ?thesis unfolding explained_def
    by (intro conjI allI each) (use assms(1,4,6) in \<open>simp_all add: explained_def\<close>)
qed

lemma explained_silent:
  assumes "explained S rd w events es sv" "i < length (sessions sv)" "\<And>j. received j [event] = []"
    and "session_explained (received i events) (of_session i es) s"
  shows "explained S rd w (events @ [event]) es (put_session i s sv)"
proof -
  have "serve_all (iteration_order S) (handlers_env S) (served_requests (es @ [])) rd w
      = Some (Inr (served_answers (es @ []), dispatcher sv), world sv)"
    using assms(1) by (simp add: explained_def)
  from explained_put [OF assms(1,2) _ _ _ this, of event "[]" s] assms(3,4) show ?thesis by simp
qed

lemma explained_session:
  "explained S rd w events es sv \<Longrightarrow> i < length (sessions sv) \<Longrightarrow>
   session_explained (received i events) (of_session i es) (sessions sv ! i)"
  unfolding explained_def by metis

lemma explained_accept:
  assumes "explained S rd w events es sv"
  shows "explained S rd w (events @ [Accept_done error]) es (handle_accept error sv)"
proof -
  have fresh: "session_explained [] [] (start new_session)"
    by (simp add: session_explained_def start_def async_read_some_def clear_buffer_def new_session_def)
  have each: "if j < length (sessions (handle_accept error sv))
      then session_explained (received j (events @ [Accept_done error])) (of_session j es) (sessions (handle_accept error sv) ! j)
      else received j (events @ [Accept_done error]) = [] \<and> of_session j es = []" for j
  proof -
    have old: "if j < length (sessions sv) then session_explained (received j events) (of_session j es) (sessions sv ! j)
        else received j events = [] \<and> of_session j es = []"
      and new: "accepting sv = new_session" using assms by (simp_all add: explained_def)
    show ?thesis
    proof (cases "j < length (sessions sv)")
      case True
      with old show ?thesis by (simp add: nth_append)
    next
      case False
      with old new fresh show ?thesis by (simp add: nth_append)
    qed
  qed
  show ?thesis unfolding explained_def
    by (intro conjI allI each) (use assms in \<open>simp_all add: explained_def\<close>)
qed

subsection \<open>Every step extends the history\<close>

lemma explained_read:
  assumes ex: "explained S rd w events es sv" and i: "i < length (sessions sv)" "pending (sessions sv ! i) = Reading"
    and read: "handle_read S False (length bytes) (receive bytes (sessions sv ! i)) (dispatcher sv) (world sv)
      = Some (Inr (s, rd'), w')"
  shows "\<exists>fs. explained S rd w (events @ [Read_done i bytes]) (es @ fs)
    (put_session i s (sv\<lparr>dispatcher := rd', world := w'\<rparr>))"
proof -
  let ?s = "sessions sv ! i" and ?new = "(new_request_parser, new_request_builder)"
  let ?texts = "concat (map entry_text (of_session i es))" and ?answers = "concat (map (wire \<circ> entry_answer) (of_session i es))"
  have event: "received j [Read_done i bytes] = (if j = i then bytes else [])" for j by simp
  have so_far: "serve_all (iteration_order S) (handlers_env S) (served_requests es) rd w
      = Some (Inr (served_answers es, dispatcher sv), world sv)"
    using ex by (simp add: explained_def)
  obtain xs where xs: "received i events = ?texts @ xs" "feed rq_consume ?new xs = Some (parser_builder ?s)"
    and written: "written ?s = ?answers"
    using explained_session [OF ex i(1)] i(2) by (auto simp: session_explained_def Let_def)
  from read show ?thesis
  proof (cases rule: handle_read_cases)
    case (good p b rest r)
    let ?request = "rq_build_request (uninitialised_method S (world sv)) b"
    let ?e = "Served i (xs @ bytes) ?request r"
    have parse: "rq_parse ?new (xs @ bytes) = (Good, (p, b), [])"
      using rq_parse_append [OF xs(2), of bytes] good(1) by (simp add: rq_parse_Good)
    then have "rq_complete p b" using rq_parse_Good_complete [OF rq_ok_new] by blast
    then have reset: "rq_reset p = new_request_parser"
      by (simp add: rq_complete_def rq_reset_def new_request_parser_def)
    have "serve_all (iteration_order S) (handlers_env S) (served_requests (es @ [?e])) rd w
        = Some (Inr (served_answers (es @ [?e]), rd'), w')"
      using serve_all_snoc [OF so_far good(2)] by simp
    moreover have "session_explained (received i events @ bytes) (of_session i es @ [?e]) s"
      using xs(1) written by (simp add: good(3) session_explained_def answer_def reset)
    moreover have "list_all entry_ok [?e]" using parse by auto
    ultimately have "explained S rd w (events @ [Read_done i bytes]) (es @ [?e])
        (put_session i s (sv\<lparr>dispatcher := rd', world := w'\<rparr>))"
      by (intro explained_put [OF ex i(1) event]) simp_all
    then show ?thesis by blast
  next
    case (bad m rest)
    let ?e = "Rejected i (xs @ bytes)"
    have "rq_parse ?new (xs @ bytes) = (Bad, m, rest)"
      using rq_parse_append [OF xs(2), of bytes] bad(1) by simp
    then have "list_all entry_ok [?e]" by auto
    moreover have "session_explained (received i events @ bytes) (of_session i es @ [?e]) s"
      using xs(1) written by (simp add: bad(2) session_explained_def answer_def)
    ultimately have "explained S rd w (events @ [Read_done i bytes]) (es @ [?e])
        (put_session i s (sv\<lparr>dispatcher := rd', world := w'\<rparr>))"
      using so_far bad(3,4) by (intro explained_put [OF ex i(1) event]) simp_all
    then show ?thesis by blast
  next
    case (more m rest)
    have "feed rq_consume (parser_builder ?s) bytes = Some m"
      using more(1) by (simp add: rq_parse_Indeterminate)
    with xs(2) have "feed rq_consume ?new (xs @ bytes) = Some m" by (simp add: feed_append)
    then have "session_explained (received i events @ bytes) (of_session i es @ []) s"
      using xs(1) written by (auto simp: more(2) session_explained_def async_read_some_def clear_buffer_def)
    then have "explained S rd w (events @ [Read_done i bytes]) (es @ [])
        (put_session i s (sv\<lparr>dispatcher := rd', world := w'\<rparr>))"
      using so_far more(3,4) by (intro explained_put [OF ex i(1) event]) simp_all
    then show ?thesis by blast
  qed
qed

lemma session_explained_written:
  assumes "session_explained xs es s"
  shows "pending s = Writing \<Longrightarrow> session_explained xs es (handle_write False (sent s))"
    "pending s = Writing \<Longrightarrow> session_explained xs es (handle_write True s)"
    "pending s = Writing_last \<Longrightarrow> session_explained xs es (shutdown False (sent s))"
    "pending s = Writing_last \<Longrightarrow> session_explained xs es (shutdown True s)"
    "pending s = Reading \<Longrightarrow> session_explained xs es (s\<lparr>pending := Deleted\<rparr>)"
  using assms
  by (auto simp: session_explained_def Let_def handle_write_def shutdown_def sent_def async_read_some_def) (metis prefixI)+

lemma explained_step:
  assumes ex: "explained S rd w events es sv" and step: "step S (Running sv) event (Running sv')"
  shows "\<exists>fs. explained S rd w (events @ [event]) (es @ fs) sv'"
proof -
  have silent: "\<exists>fs. explained S rd w (events @ [event]) (es @ fs) (put_session i s sv)"
    if "i < length (sessions sv)" "\<And>j. received j [event] = []"
      "session_explained (received i events) (of_session i es) s" for i s
    using explained_silent [OF ex that(1,2,3)] by (intro exI [of _ "[]"]) simp
  from step show ?thesis
  proof (cases rule: step.cases)
    case (accept error)
    with explained_accept [OF ex] show ?thesis by (intro exI [of _ "[]"]) simp
  next
    case (read i bytes s rd1 w1)
    with explained_read [OF ex, of i bytes s rd1 w1] show ?thesis by simp
  next
    case (read_fails i s rd1 w1)
    then have s: "s = (sessions sv ! i)\<lparr>pending := Deleted\<rparr>" and sv': "sv' = put_session i s sv"
      by (simp_all add: handle_read_def)
    show ?thesis unfolding sv'
      by (rule silent) (use read_fails s session_explained_written(5) [OF explained_session [OF ex]] in simp_all)
  next
    case (write_completes i)
    then show ?thesis
      using silent [of i] session_explained_written(1) [OF explained_session [OF ex]] by simp
  next
    case (write_fails i)
    then show ?thesis
      using silent [of i] session_explained_written(2) [OF explained_session [OF ex]] by simp
  next
    case (write_last_completes i)
    then show ?thesis
      using silent [of i] session_explained_written(3) [OF explained_session [OF ex]] by simp
  next
    case (write_last_fails i)
    then show ?thesis
      using silent [of i] session_explained_written(4) [OF explained_session [OF ex]] by simp
  qed
qed

lemma run_explained:
  "run S (Running (new_server rd w)) events (Running sv) \<Longrightarrow> \<exists>es. explained S rd w events es sv"
proof (induction events arbitrary: sv rule: rev_induct)
  case Nil
  then have "sv = new_server rd w" by (simp add: run_simps)
  then show ?case using explained_start [of S rd w] by blast
next
  case (snoc event events)
  then obtain state where state: "run S (Running (new_server rd w)) events state" "step S state event (Running sv)"
    by (auto simp: run_snoc)
  then obtain sv0 where "state = Running sv0" by (cases state) (auto elim: terminatedE)
  with state snoc.IH explained_step show ?case by metis
qed

end
