(* ===== verification/ServerProperties.thy ===== *)
theory ServerProperties
  imports ServerHistory DispatcherProperties BlogProperties ConfigPrint
begin

text \<open>
  The properties of the whole program: what holds of a server from its start in \<open>main\<close> on, how a connection carries requests
  and answers, how it ends, and what can end the program.
\<close>

subsection \<open>From the start of the program\<close>

lemma parse_file_ok: "parse_file fs f new_config = Inr (accepted, cfg) \<Longrightarrow> config_ok cfg"
  using vars_ok_parse_loop [OF vars_ok_new]
  by (auto simp: parse_file_def parse_config_def config_ok_new split: option.splits)

lemma server_ok_main:
  assumes "iteration it" "main_program it connect_db fs listen argv w = Inr (Serve port sv)"
  shows "\<exists>cfg. running_ok cfg (Running sv) \<and> port = port_number cfg"
proof -
  obtain accepted cfg rd where parsed: "parse_file fs (argv ! 1) new_config = Inr (accepted, cfg)"
    and made: "create_handler_mapping it connect_db cfg = Inr rd" and sv: "port = port_number cfg" "sv = new_server rd w"
    using main_program_Serve [OF assms(2)] by metis
  from dispatcher_ok_mapping [OF assms(1) parse_file_ok [OF parsed] made] mapping_table(1) [OF assms(1) parse_file_ok [OF parsed] made]
  have "running_ok cfg (Running sv)" by (simp add: sv server_ok_def new_server_def start_accept_def)
  with sv show ?thesis by blast
qed

subsection \<open>An example\<close>

text \<open>For the witnesses: a server started from a configuration file, and one with a connection just accepted.\<close>

definition example_setting :: "(Blog list, unit, unit, unit) setting" where
  "example_setting = \<lparr>iteration_order = (\<lambda>l. l), handlers_env = example_environment, uninitialised_method = (\<lambda>_. None)\<rparr>"

lemma example_setting_simps [simp]:
  "iteration_order example_setting = (\<lambda>l. l)" "handlers_env example_setting = example_environment"
  by (simp_all add: example_setting_def)

abbreviation site_items :: "nat \<Rightarrow> string \<Rightarrow> string \<Rightarrow> item list" where
  "site_items p l root \<equiv> [PortItem p, LocationItem l (StaticPlace root)]"

definition site_config :: "nat \<Rightarrow> string \<Rightarrow> string \<Rightarrow> NginxConfig" where
  "site_config p l root = fold with_item (site_items p l root) new_config"

lemma site_config_fields [simp]:
  "static_locations (site_config p l root) = [(l, root)]" "echo_locations (site_config p l root) = []"
  "status_locations (site_config p l root) = []" "proxy_locations (site_config p l root) = []"
  "redirect_locations (site_config p l root) = []" "health_locations (site_config p l root) = []"
  "upload_form_locations (site_config p l root) = []" "blog_ips (site_config p l root) = []"
  "port_number (site_config p l root) = int p"
  "handler_types (site_config p l root) = [''StaticHandler'', ''{'', ''root'']"
  by (simp_all add: site_config_def new_config_def with_place_def umap_put_def uset_insert_def)

lemma site_config_parsed:
  assumes "int p \<le> MAX_PORT" "DQ \<notin> set l" "place_ok (StaticPlace root)"
  shows "parse_file (\<lambda>_. Some (print_config (site_items p l root))) file new_config = Inr (True, site_config p l root)"
  using parse_config_printed [of "site_items p l root"] assms by (simp add: parse_file_def site_config_def)

abbreviation static_items :: "item list" where "static_items \<equiv> site_items 80 ''/s'' ''/d''"
abbreviation static_config :: NginxConfig where "static_config \<equiv> site_config 80 ''/s'' ''/d''"

lemma static_config_parsed: "parse_file (\<lambda>_. Some (print_config static_items)) f new_config = Inr (True, static_config)"
  by (rule site_config_parsed) (simp_all add: MAX_PORT_def)

definition static_dispatcher :: "Blog list request_dispatcher" where
  "static_dispatcher = projr (create_handler_mapping (\<lambda>l. l) (\<lambda>_. []) static_config)"

lemma static_mapping: "create_handler_mapping (\<lambda>l. l) (\<lambda>_. []) static_config = Inr static_dispatcher"
  by (simp add: static_dispatcher_def create_handler_mapping_def register_type_def empty_dispatcher_def Let_def static_Init_def
      map_at_def)

lemma static_main:
  "main_program (iteration_order example_setting) (\<lambda>_. []) (\<lambda>_. Some (print_config static_items)) (\<lambda>_. True)
     [''server'', ''config''] () = Inr (Serve 80 (new_server static_dispatcher ()))"
  by (simp add: main_program_def static_config_parsed [simplified] static_mapping)

definition example_server :: "(Blog list, unit) server" where
  "example_server = handle_accept False (new_server static_dispatcher ())"

lemma example_server_accepted:
  "run example_setting (Running (new_server static_dispatcher ())) [Accept_done False] (Running example_server)"
  unfolding example_server_def by (rule run_one [OF step.accept])

lemma example_server_simps [simp]:
  "sessions example_server = [start new_session]" "dispatcher example_server = static_dispatcher"
  by (simp_all add: example_server_def new_server_def start_accept_def)

lemma first_connection:
  "between_requests 0 (handle_accept False (new_server rd w))"
  "written (sessions (handle_accept False (new_server rd w)) ! 0) = []"
  "length (sessions (handle_accept False (new_server rd w))) = 1"
  "dispatcher (handle_accept False (new_server rd w)) = rd" "world (handle_accept False (new_server rd w)) = w"
  by (simp_all add: between_requests_def new_server_def start_accept_def start_def async_read_some_def clear_buffer_def
      new_session_def)

lemma example_between: "between_requests 0 example_server"
  unfolding example_server_def by (rule first_connection)

subsection \<open>Invariants\<close>

text \<open>
  C1. Whatever the configuration file holds and whatever clients send, in any order, as long as the program runs: it listens on
  a port number; every session reads with a parser that holds the beginning of one request only, its buffer is ended by a
  NUL and an answer is there whenever one is written; and the dispatcher has a handler for every URI.
\<close>

theorem server_invariant:
  assumes "main_program (iteration_order S) connect_db fs listen argv w = Inr (Serve port sv0)"
    and "iteration (iteration_order S)" "run S (Running sv0) events (Running sv)"
  shows "0 \<le> port \<and> port \<le> MAX_PORT \<and> list_all session_ok (sessions sv) \<and>
    (\<exists>h. get_handler (iteration_order S) uri (dispatcher sv) = (Some h, dispatcher sv))"
proof -
  obtain accepted cfg where cfg: "parse_file fs (argv ! 1) new_config = Inr (accepted, cfg)" "0 \<le> port_number cfg"
      "port = port_number cfg"
    using main_program_Serve [OF assms(1)] by metis
  obtain cfg' where start: "running_ok cfg' (Running sv0)" using server_ok_main [OF assms(2,1)] by blast
  have "server_ok cfg' sv"
    using running.inv_run [OF conjI [OF assms(2) start] assms(3)] by simp
  then have "list_all session_ok (sessions sv)" "dispatcher_ok (dispatcher sv)" by (simp_all add: server_ok_def)
  moreover have "0 \<le> port \<and> port \<le> MAX_PORT"
    using cfg parse_file_ok [OF cfg(1)] by (auto simp: config_ok_def port_ok_def)
  ultimately show ?thesis using get_handler_ok [OF assms(2)] by blast
qed

theorem server_invariant_witness:
  "0 \<le> (80 :: int) \<and> 80 \<le> MAX_PORT \<and> list_all session_ok (sessions example_server) \<and>
    (\<exists>h. get_handler (iteration_order example_setting) ''/s/x'' (dispatcher example_server)
       = (Some h, dispatcher example_server))"
  by (rule server_invariant [OF static_main _ example_server_accepted]) (simp add: iteration_id)



subsection \<open>The server as a sequence of requests\<close>

text \<open>
  C2. Refinement: whatever clients do on however many connections, in any order and any pieces, the server behaves like one
  that serves whole requests one after the other, each at once. There is a history of requests such that the bytes from
  each client are the texts of its requests in the history and the beginning of one more; the dispatcher and the world are
  what serving the history leaves; and each client has been sent exactly the answers to its requests, in order, up to the
  one that is being written. Only texts the parser rejects are in the history without being served, with the answer 400.
\<close>

theorem every_run_explained:
  assumes "main_program (iteration_order S) connect_db fs listen argv w = Inr (Serve port sv0)"
    and "run S (Running sv0) events (Running sv)"
  shows "\<exists>history. explained S (dispatcher sv0) (world sv0) events history sv"
proof -
  obtain rd where sv0: "sv0 = new_server rd w" using main_program_Serve [OF assms(1)] by metis
  then have "dispatcher sv0 = rd" "world sv0 = w" by (simp_all add: new_server_def start_accept_def)
  with run_explained [OF assms(2) [unfolded sv0]] show ?thesis by simp
qed

theorem every_run_explained_witness:
  "\<exists>history. explained example_setting (dispatcher (new_server static_dispatcher ()))
    (world (new_server static_dispatcher ())) [Accept_done False] history example_server"
  by (rule every_run_explained [OF static_main example_server_accepted])

subsection \<open>A connection\<close>

text \<open>
  C5. A client that sends keep-alive requests one after the other, each cut into any reads and each after the answer to the one
  before, is sent exactly the answers of the handlers to these requests, in order and nothing else, and the connection is
  then ready for the next request; other connections are not touched.
\<close>

theorem conversation_answered:
  assumes "between_requests i sv" "list_all printable ts" "list_all asks_keep_alive ts" "list_all2 in_pieces pieces ts"
    and "serve_all (iteration_order S) (handlers_env S) (map request_of ts) (dispatcher sv) (world sv)
      = Some (Inr (responses, rd), w)"
  shows "\<exists>sv'. run S (Running sv) (concat (map (exchange_events i) pieces)) (Running sv') \<and>
    between_requests i sv' \<and> dispatcher sv' = rd \<and> world sv' = w \<and>
    written (sessions sv' ! i) = written (sessions sv ! i) @ concat (map wire responses) \<and>
    (\<forall>j. j \<noteq> i \<longrightarrow> sessions sv' ! j = sessions sv ! j)"
  by (rule exchanges_done [OF assms])


lemma digit_chars: "char_of (48 :: nat) = CHR ''0''" "char_of (49 :: nat) = CHR ''1''" "char_of (51 :: nat) = CHR ''3''"
  by code_simp+

lemma dec_values: "dec_string (Suc 0) = ''1''" "dec_string 3000000000 = ''3000000000''"
  by (simp_all add: dec_string.simps digit_chars)

abbreviation get_static :: text_request where
  "get_static \<equiv> \<lparr>tr_method = ''GET'', tr_uri = ''/s/x'', tr_major = 1, tr_minor = 1,
     tr_headers = [\<lparr>h_name = ''Connection'', h_value = ''Keep-Alive''\<rparr>], tr_body = []\<rparr>"

lemma get_static_ok: "printable get_static" "asks_keep_alive get_static"
  by (simp_all add: printable_def asks_keep_alive_def is_keep_alive_def method_of_name_def token_method header_accepted_def
      header_ok_def text_eval name_eval declared_length_def is_content_length_def in_int_range_def INT_MIN_def INT_MAX_def
      uri_text_def text_char_def is_ctl_def char_int_def)

abbreviation get_static_pieces :: "string list" where
  "get_static_pieces \<equiv> [''GET /s/x HT'', ''TP/1.1'' @ crlf @ ''Connection: Keep-Alive'' @ crlf @ crlf]"

lemma get_static_in_pieces: "in_pieces get_static_pieces get_static"
  by (simp add: in_pieces_def piece_ok_def max_length_def print_request_def head_of_request_def request_head_def
      header_line_def dec_values)

theorem conversation_answered_witness:
  "\<exists>responses rd sv.
    serve_all (\<lambda>l. l) example_environment [request_of get_static] static_dispatcher () = Some (Inr (responses, rd), ()) \<and>
    run example_setting (Running example_server) (concat (map (exchange_events 0) [get_static_pieces])) (Running sv) \<and>
    written (sessions sv ! 0) = concat (map wire responses)"
proof -
  have "\<exists>responses rd. serve_all (\<lambda>l. l) example_environment [request_of get_static] static_dispatcher ()
      = Some (Inr (responses, rd), ())"
    by (simp add: request_of_def method_of_name_def example_environment_def serve_request_def get_handler_def
        handler_key_def unescape_uri_decode decode_spaces_plain longest_prefix_match.simps find_last_of.simps
        table_index_def pure_def put_handler_def record_request_def static_dispatcher_def create_handler_mapping_def
        register_type_def empty_dispatcher_def Let_def static_Init_def map_at_def)
  then obtain responses rd where served:
    "serve_all (\<lambda>l. l) example_environment [request_of get_static] static_dispatcher ()
      = Some (Inr (responses, rd), ())" by blast
  have "list_all printable [get_static]" "list_all asks_keep_alive [get_static]" "list_all2 in_pieces [get_static_pieces] [get_static]"
    by (simp_all only: list.pred_inject list_all2_Cons list_all2_Nil get_static_ok get_static_in_pieces simp_thms)
  note facts = conversation_answered [OF example_between this, where S = example_setting, simplified example_setting_simps]
  from facts [of responses rd "()"] served have "\<exists>sv.
    run example_setting (Running example_server) (concat (map (exchange_events 0) [get_static_pieces])) (Running sv) \<and>
    written (sessions sv ! 0) = written (sessions example_server ! 0) @ concat (map wire responses)"
    by auto
  with served show ?thesis
    by (auto simp: start_def async_read_some_def clear_buffer_def new_session_def)
qed

text \<open>
  C33. On bytes the parser rejects, no handler is called; the client is sent the 400 answer and nothing else, the connection is
  shut down, and the session does nothing any more, whatever happens; its object is never deleted.
\<close>

theorem bad_request_closes:
  assumes "i < length (sessions sv)" "pending (sessions sv ! i) = Reading" "piece_ok bytes"
    and "rq_parse (parser_builder (sessions sv ! i)) bytes = (Bad, m, rest)"
  shows "\<exists>sv'. run S (Running sv) [Read_done i bytes, Write_done i] (Running sv') \<and>
    dispatcher sv' = dispatcher sv \<and> world sv' = world sv \<and>
    pending (sessions sv' ! i) = Shut_down \<and>
    written (sessions sv' ! i) = written (sessions sv ! i) @ wire (stock_response St_bad_request) \<and>
    (\<forall>events sv''. run S (Running sv') events (Running sv'') \<longrightarrow> sessions sv'' ! i = sessions sv' ! i)"
proof -
  let ?s = "answer (stock_response St_bad_request) Writing_last ((receive bytes (sessions sv ! i))\<lparr>parser_builder := m\<rparr>)"
  let ?sv = "put_session i ?s sv" and ?sv' = "put_session i (shutdown False (sent ?s)) sv"
  have "handle_read S False (length bytes) (receive bytes (sessions sv ! i)) (dispatcher sv) (world sv) =
      Some (Inr (?s, dispatcher sv), world sv)"
    using assms(4) by (simp add: handle_read_def)
  from step.read [OF assms(1,2) _ _ this] assms(3) have first: "step S (Running sv) (Read_done i bytes) (Running ?sv)"
    by (simp add: piece_ok_def)
  have "step S (Running ?sv) (Write_done i) (Running (put_session i (shutdown False (sent (sessions ?sv ! i))) ?sv))"
    by (rule step.write_last_completes) (use assms(1) in \<open>simp_all add: answer_def\<close>)
  then have second: "step S (Running ?sv) (Write_done i) (Running ?sv')" using assms(1) by simp
  have over: "over i (sessions ?sv' ! i) (Running ?sv')" using assms(1) by (simp add: shutdown_def)
  have "sessions sv'' ! i = sessions ?sv' ! i" if "run S (Running ?sv') events (Running sv'')" for events sv''
    using closed.inv_run [OF over that] by simp
  then have still: "\<forall>events sv''. run S (Running ?sv') events (Running sv'') \<longrightarrow> sessions sv'' ! i = sessions ?sv' ! i"
    by blast
  have both: "run S (Running sv) [Read_done i bytes, Write_done i] (Running ?sv')"
    by (rule run_Cons [OF first run_one [OF second]])
  have "pending (sessions ?sv' ! i) = Shut_down"
    "written (sessions ?sv' ! i) = written (sessions sv ! i) @ wire (stock_response St_bad_request)"
    using assms(1) by (simp_all add: shutdown_def sent_def answer_def)
  with both still show ?thesis by (intro exI [of _ ?sv'] conjI) simp_all
qed

theorem bad_request_closes_witness:
  "\<exists>sv. run example_setting (Running example_server) [Read_done 0 [LF], Write_done 0] (Running sv) \<and>
    pending (sessions sv ! 0) = Shut_down \<and>
    written (sessions sv ! 0) = wire (stock_response St_bad_request)"
proof -
  have "\<exists>m rest. rq_parse (parser_builder (sessions example_server ! 0)) [LF] = (Bad, m, rest)"
    by (simp add: start_def async_read_some_def clear_buffer_def new_session_def new_request_parser_def Let_def
        rq_consume.simps rq_consume_line_def is_ctl_def char_int_def)
  then obtain m rest where bad: "rq_parse (parser_builder (sessions example_server ! 0)) [LF] = (Bad, m, rest)" by blast
  have "piece_ok [LF]" by (simp add: piece_ok_def max_length_def)
  from bad_request_closes [OF _ _ this bad, of example_setting] show ?thesis
    by (auto simp: start_def async_read_some_def clear_buffer_def new_session_def)
qed

subsection \<open>What \<open>main\<close> does not check\<close>

text \<open>A configuration that \<open>Parse\<close> rejects is served all the same, once it has set the port.\<close>

lemma rejected_config:
  "\<exists>cfg. parse_config ''port 80;}'' new_config = Inr (False, cfg) \<and> port_number cfg = 80 \<and> handler_types cfg = []"
proof -
  have "parse_token ''port 80;}'' = (TOKEN_TYPE_NORMAL, ''port'', '' 80;}'')"
    "parse_token '' 80;}'' = (TOKEN_TYPE_NORMAL, ''80'', '';}'')"
    "parse_token '';}'' = (TOKEN_TYPE_STATEMENT_END, '';'', ''}'')"
    "parse_token ''}'' = (TOKEN_TYPE_END_BLOCK, ''}'', [])"
    by (simp_all add: parse_token_def)
  then show ?thesis
    by (simp add: parse_config_def parse_loop.simps [of _ "''port 80;}''"] parse_loop.simps [of _ "'' 80;}''"]
        parse_loop.simps [of _ "'';}''"] parse_loop.simps [of _ "''}''"]
        iteration_step_def save_defs handler_type_token_def location_token_def note_keyword_def
        token_transition_def on_top_def push_token_def Let_def new_vars_def new_config_def unquote_def substr_def
        SetConfigPortNumberFromToken_def number_eval after_colon_def find_from_def MAX_PORT_def)
qed

theorem rejected_config_served:
  "\<exists>cfg sv. parse_file (\<lambda>_. Some ''port 80;}'') ''config'' new_config = Inr (False, cfg) \<and>
    main_program it connect_db (\<lambda>_. Some ''port 80;}'') (\<lambda>_. True) [''server'', ''config''] w = Inr (Serve 80 sv)"
  using rejected_config by (auto simp: main_program_def parse_file_def create_handler_mapping_def)

subsection \<open>A site of static files\<close>






subsection \<open>A blog\<close>



definition blog_server :: "'c \<Rightarrow> ('c, unit) server" where
  "blog_server d = handle_accept False (new_server
     \<lparr>config_of = new_config\<lparr>blog_ips := [(''/blog'', ''127.0.0.1'')]\<rparr>,
      table = [(''/blog'', Some (BlogHandler (example_blog d)))],
      status_handler_enabled = False, error_handler = Error404Handler \<lparr>error_path = []\<rparr>\<rparr> ())"

lemma blog_server_simps [simp]:
  "between_requests 0 (blog_server d)" "written (sessions (blog_server d) ! 0) = []"
  "table (dispatcher (blog_server d)) = [(''/blog'', Some (BlogHandler (example_blog d)))]"
  "\<not> status_handler_enabled (dispatcher (blog_server d))"
  "config_of (dispatcher (blog_server d)) = new_config\<lparr>blog_ips := [(''/blog'', ''127.0.0.1'')]\<rparr>"
  by (simp_all add: blog_server_def first_connection del: handle_accept_simps)









subsection \<open>What can end the program\<close>

text \<open>
  C34. A client can end the program with one request: \<open>GET\<close> of a number that does not fit an \<open>int\<close> below a blog location, in
  any pieces. \<open>std::stoi\<close> raises in the handler, nobody catches, and the thread that runs the session ends the process.
\<close>

theorem blog_number_stops_server:
  assumes "between_requests i sv" "printable t" "in_pieces pieces t" "tr_method t = ''GET''"
    and "tr_uri t = location_prefix h @ ''/'' @ dec_string n" "\<not> in_int_range (int n)"
    and "get_handler (iteration_order S) (tr_uri t) (dispatcher sv) = (Some (BlogHandler h), dispatcher sv)"
  shows "run S (Running sv) (map (Read_done i) pieces) (Terminated OutOfRange)"
proof -
  let ?s = "sessions sv ! i"
  have i: "i < length (sessions sv)" "pending ?s = Reading"
    and fresh: "parser_builder ?s = (new_request_parser, new_request_builder)"
    using assms(1) by (simp_all add: between_requests_def)
  obtain p b where parse: "rq_parse (new_request_parser, new_request_builder) (concat pieces) = (Good, (p, b), [])"
    and b: "rq_build_request (uninitialised_method S (world sv)) b = request_of t"
    using print_request_parsed [OF assms(2), of "uninitialised_method S (world sv)"] assms(3)
    by (auto simp: in_pieces_def)
  have "pieces \<noteq> []" using parse by auto
  then obtain init bytes where pieces: "pieces = init @ [bytes]" by (metis rev_exhaust)
  have ok: "list_all piece_ok init" "piece_ok bytes" using assms(3) by (simp_all add: pieces in_pieces_def)
  have "rq_parse (new_request_parser, new_request_builder) (concat init @ bytes) = (Good, (p, b), [])" "bytes \<noteq> []"
    using parse ok(2) by (simp_all add: pieces piece_ok_def)
  then obtain m where m: "feed rq_consume (new_request_parser, new_request_builder) (concat init) = Some m"
      "rq_parse m bytes = (Good, (p, b), [])"
    by (rule feed_before_Good)
  from reads_in_progress [OF ok(1) i, of m S] m(1) fresh obtain d where
    first: "run S (Running sv) (map (Read_done i) init)
      (Running (put_session i (?s\<lparr>parser_builder := m, data_buffer := d\<rparr>) sv))" by auto
  let ?sv = "put_session i (?s\<lparr>parser_builder := m, data_buffer := d\<rparr>) sv"
  have request: "method_of (request_of t) = Some GET" "uri_of (request_of t) = location_prefix h @ ''/'' @ dec_string n"
    using assms(4,5) by (simp_all add: request_of_def method_of_name_def)
  have "serve_request (iteration_order S) (handlers_env S) (request_of t) (dispatcher sv) (world sv)
      = Some (Inl OutOfRange, world sv)"
    using assms(5-7) get_number [OF request] request(2) by (simp add: serve_request_def)
  then have "handle_read S False (length bytes) (receive bytes (sessions ?sv ! i)) (dispatcher ?sv) (world ?sv)
      = Some (Inl OutOfRange, world sv)"
    using m(2) i(1) b by (simp add: handle_read_def)
  from step.read_raises [OF _ _ _ _ this] i ok(2)
  have "step S (Running ?sv) (Read_done i bytes) (Terminated OutOfRange)" by (simp add: piece_ok_def)
  from run_append [OF first run_one [OF this]] show ?thesis by (simp add: pieces)
qed

abbreviation get_huge :: text_request where
  "get_huge \<equiv> \<lparr>tr_method = ''GET'', tr_uri = ''/blog/3000000000'', tr_major = 1, tr_minor = 1, tr_headers = [], tr_body = []\<rparr>"

theorem blog_number_stops_server_witness:
  "run example_setting (Running (blog_server [])) [Read_done 0 (''GET /blog/3000000000 HTTP/1.1'' @ crlf @ crlf)]
     (Terminated OutOfRange)"
proof -
  have between: "between_requests 0 (blog_server [])" by simp
  have printable: "printable get_huge"
    by (simp add: printable_def method_of_name_def token_method in_int_range_def INT_MIN_def INT_MAX_def
      uri_text_def text_char_def is_ctl_def char_int_def)
  have pieces: "in_pieces [''GET /blog/3000000000 HTTP/1.1'' @ crlf @ crlf] get_huge"
    by (simp add: in_pieces_def piece_ok_def max_length_def print_request_def head_of_request_def request_head_def
      dec_values)
  have uri: "tr_uri get_huge = location_prefix \<lparr>form_to_value = [], location_prefix = ''/blog'', bd = []\<rparr> @ ''/'' @ dec_string 3000000000"
    by (simp add: dec_values)
  have big: "\<not> in_int_range (int 3000000000)" by (simp add: in_int_range_def INT_MAX_def)
  have found: "get_handler (iteration_order example_setting) (tr_uri get_huge) (dispatcher (blog_server [])) =
      (Some (BlogHandler \<lparr>form_to_value = [], location_prefix = ''/blog'', bd = []\<rparr>), dispatcher (blog_server []))"
    by (simp add: get_handler_def handler_key_def new_config_def
        unescape_uri_decode decode_spaces_plain longest_prefix_match.simps find_last_of.simps table_index_def)
  from blog_number_stops_server [OF between printable pieces _ uri big found] show ?thesis by simp
qed

end
