(* ===== verification/ProxySite.thy ===== *)
theory ProxySite
  imports ServerProperties ProxyProperties
begin

text \<open>
  A server with a proxy location, from the text of its configuration to the bytes on its connections: what it sends to the
  other server, as the text of a request, and what it sends to its own client.
\<close>

subsection \<open>The configuration\<close>

abbreviation proxy_items :: "nat \<Rightarrow> string \<Rightarrow> string \<Rightarrow> nat \<Rightarrow> item list" where
  "proxy_items p l host q \<equiv> [PortItem p, LocationItem l (ProxyPlace host q)]"

definition proxy_config :: "nat \<Rightarrow> string \<Rightarrow> string \<Rightarrow> nat \<Rightarrow> NginxConfig" where
  "proxy_config p l host q = fold with_item (proxy_items p l host q) new_config"

lemma proxy_config_fields [simp]:
  "static_locations (proxy_config p l host q) = []" "echo_locations (proxy_config p l host q) = []"
  "status_locations (proxy_config p l host q) = []" "proxy_locations (proxy_config p l host q) = [(l, host, int q)]"
  "redirect_locations (proxy_config p l host q) = []" "health_locations (proxy_config p l host q) = []"
  "upload_form_locations (proxy_config p l host q) = []" "blog_ips (proxy_config p l host q) = []"
  "port_number (proxy_config p l host q) = int p"
  "handler_types (proxy_config p l host q) = [''ProxyHandler'', ''{'', ''host'']"
  by (simp_all add: proxy_config_def new_config_def with_place_def umap_put_def uset_insert_def)





subsection \<open>The request sent on, as text\<close>

definition forwarded :: "string \<Rightarrow> string \<Rightarrow> int \<Rightarrow> text_request \<Rightarrow> text_request" where
  "forwarded uri url port t = t\<lparr>tr_uri := uri, tr_headers := map header_of_entry
     (map_put ''Accept-Encoding'' ''gzip, identity''
       (map_put ''Host'' (url @ '':'' @ to_string port) (assign_headers (tr_headers t))))\<rparr>"



text \<open>The text is one that the program's own parser accepts when the length is still declared by the header that is sent on.\<close>

lemma forwarded_printable:
  assumes "printable t" "uri_text uri" "value_text url"
    and "int (length (tr_body t)) = sint (declared_length (map header_of_entry (assign_headers (tr_headers t))))"
  shows "printable (forwarded uri url port t)"
proof -
  have host: "value_text (url @ '':'' @ to_string port)"
    using assms(3) to_string_value_text [of port] text_char_facts(5) unfolding value_text_def by auto
  have "\<forall>kv\<in>set (fold (\<lambda>h. map_put (h_name h) (h_value h)) hs m). header_accepted (header_of_entry kv)"
    if "\<forall>h\<in>set hs. header_accepted h" "\<forall>kv\<in>set m. header_accepted (header_of_entry kv)" for hs m
    using that
  proof (induction hs arbitrary: m)
    case (Cons h hs)
    have "header_accepted (header_of_entry (h_name h, h_value h))" using Cons.prems(1) by (cases h) (simp add: header_of_entry_def)
    then have "\<forall>kv\<in>set (map_put (h_name h) (h_value h) m). header_accepted (header_of_entry kv)"
      using Cons.prems(2) by (rule map_put_all)
    with Cons show ?case by simp
  qed simp
  from this [of "tr_headers t" "[]"] assms(1)
  have "\<forall>kv\<in>set (assign_headers (tr_headers t)). header_accepted (header_of_entry kv)"
    by (simp add: assign_headers_def printable_def list_all_iff)
  moreover have "header_accepted (header_of_entry (''Host'', url @ '':'' @ to_string port))"
    "header_accepted (header_of_entry (''Accept-Encoding'', ''gzip, identity''))"
    by (simp_all add: header_accepted_def header_ok_def header_of_entry_def is_content_length_def proxy_headers host [simplified])
  ultimately have "\<forall>kv\<in>set (map_put ''Accept-Encoding'' ''gzip, identity''
      (map_put ''Host'' (url @ '':'' @ to_string port) (assign_headers (tr_headers t)))). header_accepted (header_of_entry kv)"
    by (intro map_put_all)
  moreover have "declared_length (tr_headers (forwarded uri url port t)) =
      declared_length (map header_of_entry (assign_headers (tr_headers t)))"
    by (simp add: forwarded_def declared_from_put proxy_headers flip: declared_from_0)
  ultimately show ?thesis using assms by (simp add: printable_def forwarded_def list_all_iff)
qed

subsection \<open>A server with a proxy location\<close>





end
