(* ===== verification/Threads.thy ===== *)
theory Threads
  imports Server
begin

text \<open>
  The process (src/server_main.cc): a pool of threads that all run the same \<open>io_service\<close>, and the signal handlers.

  In \<open>Server\<close> one handler runs at a time. Here the operations under way at the \<open>io_service\<close> are a list of their own, a thread
  that is free takes a completed operation out of it and runs its handler, and the handler puts new operations into it.
  A handler that touches nothing but its session runs in one action. \<open>handle_read\<close> with a complete request has three:
  \<open>Begin\<close> parses the bytes, \<open>Call\<close> looks up the handler object and calls it, \<open>Finish\<close> records the request with the status
  handler and starts to write the answer. Between them the other threads go on.

  Actions are atomic, which C++ grants only to threads that do not race: \<open>data_race\<close> is a state in which two threads
  are about to use the same object of the dispatcher, one of them to write it. The databases are guarded by their mutex. The
  libraries are taken to be safe for threads. What a handler does in the outside world during its call (the requests of a proxy) is one action.
\<close>

subsection \<open>\<open>handle_read\<close> in three parts\<close>

text \<open>Parsing: the session and whether a request is complete.\<close>

definition begin_read :: "nat \<Rightarrow> session \<Rightarrow> session \<times> bool" where
  "begin_read bytes_transferred s =
     (case rq_parse (parser_builder s) (take bytes_transferred (data_buffer s)) of
        (Good, m, rest) \<Rightarrow> (s\<lparr>parser_builder := m\<rparr>, True)
      | (Bad, m, rest) \<Rightarrow> (answer (stock_response St_bad_request) Writing_last (s\<lparr>parser_builder := m\<rparr>), False)
      | (Indeterminate, m, rest) \<Rightarrow> (async_read_some (clear_buffer (s\<lparr>parser_builder := m\<rparr>)), False))"

text \<open>The lookup and the virtual call.\<close>

definition call_handler ::
  "('c, 'w, 'd, 'e) setting \<Rightarrow> Request \<Rightarrow> 'c request_dispatcher \<Rightarrow> 'w
   \<Rightarrow> ((cpp_error + Response \<times> 'c request_dispatcher) \<times> 'w) option" where
  "call_handler S request rd w =
     (case get_handler (iteration_order S) (uri_of request) rd of
        (None, rd') \<Rightarrow> Some (Inl UndefinedBehaviour, w)
      | (Some h, rd') \<Rightarrow>
          map_option (\<lambda>(result, w').
              (and_then result (\<lambda>(r, h'). Inr (r, put_handler (iteration_order S) (uri_of request) h' rd')), w'))
            (handle_request (handlers_env S) h request w))"

text \<open>The answer, after \<open>record_request\<close>.\<close>

definition finish_read :: "Response \<Rightarrow> session \<Rightarrow> session" where
  "finish_read r s =
     (let (p, b) = parser_builder s
      in if rb_keep_alive b then answer r Writing (s\<lparr>parser_builder := (rq_reset p, new_request_builder)\<rparr>)
         else answer r Writing_last s)"

text \<open>One after the other they are \<open>handle_read\<close>.\<close>

lemma handle_read_in_parts:
  "handle_read S False n s rd w =
     (case begin_read n s of
        (s', False) \<Rightarrow> Some (Inr (s', rd), w)
      | (s', True) \<Rightarrow>
          (let request = rq_build_request (uninitialised_method S w) (snd (parser_builder s'))
           in map_option (\<lambda>(result, w').
                (and_then result (\<lambda>(r, rd').
                   and_then (record_request (uri_of request) (code_of r) rd') (\<lambda>rd''. Inr (finish_read r s', rd''))), w'))
              (call_handler S request rd w)))"
proof -
  obtain result p b rest where parse: "rq_parse (parser_builder s) (take n (data_buffer s)) = (result, (p, b), rest)"
    by (metis surj_pair)
  have swap: "and_then (and_then x f) g = and_then x (\<lambda>y. and_then (f y) g)" for x :: "cpp_error + 'x" and f :: "'x \<Rightarrow> cpp_error + 'y"
    and g :: "'y \<Rightarrow> cpp_error + 'z" by (cases x) simp_all
  show ?thesis
    by (cases result)
      (auto simp: handle_read_def begin_read_def parse call_handler_def serve_request_def finish_read_def Let_def swap
        case_prod_unfold split: option.split intro!: arg_cong [where f = "and_then _"])
qed

subsection \<open>The pool\<close>

definition THREAD_POOL_SIZE :: nat where "THREAD_POOL_SIZE = 4"

datatype operation = Accept_operation | Operation nat pending_io

text \<open>What a thread is in the middle of: between parsing and calling, and between calling and recording.\<close>

datatype task = Calling nat | Recording nat Request Response

record ('c, 'w) process =
  operations :: "operation list"        \<comment> \<open>under way at the \<open>io_service\<close>\<close>
  workers :: "task option list"         \<comment> \<open>the threads\<close>
  shared :: "('c, 'w) server"

datatype ('c, 'w) process_state = Live "('c, 'w) process" | Crashed cpp_error | Exited int

text \<open>The operation that a session has started last.\<close>

fun started :: "nat \<Rightarrow> pending_io \<Rightarrow> operation list" where
  "started i Reading = [Operation i Reading]"
| "started i Writing = [Operation i Writing]"
| "started i Writing_last = [Operation i Writing_last]"
| "started i _ = []"

text \<open>A handler that runs in one action: its operation has completed, and it leaves its session as \<open>s\<close>.\<close>

definition ran :: "nat \<Rightarrow> pending_io \<Rightarrow> session \<Rightarrow> ('c, 'w) process \<Rightarrow> ('c, 'w) process" where
  "ran i io s ps = ps\<lparr>operations := remove1 (Operation i io) (operations ps) @ started i (pending s),
     shared := put_session i s (shared ps)\<rparr>"

definition connection_made :: "bool \<Rightarrow> ('c, 'w) process \<Rightarrow> ('c, 'w) process" where
  "connection_made error ps = ps\<lparr>
     operations := remove1 Accept_operation (operations ps)
       @ (if \<not> error then [Operation (length (sessions (shared ps))) Reading] else []) @ [Accept_operation],
     shared := handle_accept error (shared ps)\<rparr>"

definition start_call :: "nat \<Rightarrow> nat \<Rightarrow> session \<Rightarrow> ('c, 'w) process \<Rightarrow> ('c, 'w) process" where
  "start_call t i s ps = ps\<lparr>operations := remove1 (Operation i Reading) (operations ps),
     workers := (workers ps)[t := Some (Calling i)], shared := put_session i s (shared ps)\<rparr>"

definition called :: "nat \<Rightarrow> nat \<Rightarrow> Request \<Rightarrow> Response \<Rightarrow> 'c request_dispatcher \<Rightarrow> 'w \<Rightarrow> ('c, 'w) process \<Rightarrow> ('c, 'w) process" where
  "called t i request r rd w ps = ps\<lparr>workers := (workers ps)[t := Some (Recording i request r)],
     shared := (shared ps)\<lparr>dispatcher := rd, world := w\<rparr>\<rparr>"

definition finished :: "nat \<Rightarrow> nat \<Rightarrow> session \<Rightarrow> 'c request_dispatcher \<Rightarrow> ('c, 'w) process \<Rightarrow> ('c, 'w) process" where
  "finished t i s rd ps = ps\<lparr>operations := operations ps @ started i (pending s), workers := (workers ps)[t := None],
     shared := put_session i s ((shared ps)\<lparr>dispatcher := rd\<rparr>)\<rparr>"

datatype action =
    Begin nat event         \<comment> \<open>a thread takes the operation that completes with this event\<close>
  | Call nat
  | Finish nat
  | Sigterm
  | Sigint

definition handle_sigterm :: "('c, 'w) process \<Rightarrow> ('c, 'w) process_state" where
  "handle_sigterm ps = Exited 1"

definition handle_sigint :: "('c, 'w) process \<Rightarrow> ('c, 'w) process_state" where
  "handle_sigint ps = Exited 1"

declare handle_sigterm_def [simp] handle_sigint_def [simp]

definition idle_thread :: "nat \<Rightarrow> ('c, 'w) process \<Rightarrow> bool" where
  "idle_thread t ps \<longleftrightarrow> t < length (workers ps) \<and> workers ps ! t = None"

definition doing :: "nat \<Rightarrow> task \<Rightarrow> ('c, 'w) process \<Rightarrow> bool" where
  "doing t task ps \<longleftrightarrow> t < length (workers ps) \<and> workers ps ! t = Some task"

definition request_read :: "('c, 'w, 'd, 'e) setting \<Rightarrow> nat \<Rightarrow> ('c, 'w) process \<Rightarrow> Request" where
  "request_read S i ps =
     rq_build_request (uninitialised_method S (world (shared ps))) (snd (parser_builder (sessions (shared ps) ! i)))"

inductive act ::
  "('c, 'w, 'd, 'e) setting \<Rightarrow> ('c, 'w) process_state \<Rightarrow> action \<Rightarrow> ('c, 'w) process_state \<Rightarrow> bool" for S where
  accept: "idle_thread t ps \<Longrightarrow> Accept_operation \<in> set (operations ps) \<Longrightarrow>
    act S (Live ps) (Begin t (Accept_done error)) (Live (connection_made error ps))"
| read: "idle_thread t ps \<Longrightarrow> Operation i Reading \<in> set (operations ps) \<Longrightarrow> bytes \<noteq> [] \<Longrightarrow> length bytes \<le> max_length \<Longrightarrow>
    begin_read (length bytes) (receive bytes (sessions (shared ps) ! i)) = (s, False) \<Longrightarrow>
    act S (Live ps) (Begin t (Read_done i bytes)) (Live (ran i Reading s ps))"
| read_request: "idle_thread t ps \<Longrightarrow> Operation i Reading \<in> set (operations ps) \<Longrightarrow> bytes \<noteq> [] \<Longrightarrow> length bytes \<le> max_length \<Longrightarrow>
    begin_read (length bytes) (receive bytes (sessions (shared ps) ! i)) = (s, True) \<Longrightarrow>
    act S (Live ps) (Begin t (Read_done i bytes)) (Live (start_call t i s ps))"
| read_fails: "idle_thread t ps \<Longrightarrow> Operation i Reading \<in> set (operations ps) \<Longrightarrow>
    act S (Live ps) (Begin t (Read_failed i)) (Live (ran i Reading ((sessions (shared ps) ! i)\<lparr>pending := Deleted\<rparr>) ps))"
| write_completes: "idle_thread t ps \<Longrightarrow> Operation i Writing \<in> set (operations ps) \<Longrightarrow>
    act S (Live ps) (Begin t (Write_done i)) (Live (ran i Writing (handle_write False (sent (sessions (shared ps) ! i))) ps))"
| write_fails: "idle_thread t ps \<Longrightarrow> Operation i Writing \<in> set (operations ps) \<Longrightarrow>
    act S (Live ps) (Begin t (Write_failed i)) (Live (ran i Writing (handle_write True (sessions (shared ps) ! i)) ps))"
| write_last_completes: "idle_thread t ps \<Longrightarrow> Operation i Writing_last \<in> set (operations ps) \<Longrightarrow>
    act S (Live ps) (Begin t (Write_done i)) (Live (ran i Writing_last (shutdown False (sent (sessions (shared ps) ! i))) ps))"
| write_last_fails: "idle_thread t ps \<Longrightarrow> Operation i Writing_last \<in> set (operations ps) \<Longrightarrow>
    act S (Live ps) (Begin t (Write_failed i)) (Live (ran i Writing_last (shutdown True (sessions (shared ps) ! i)) ps))"
| call: "doing t (Calling i) ps \<Longrightarrow>
    call_handler S (request_read S i ps) (dispatcher (shared ps)) (world (shared ps)) = Some (Inr (r, rd), w) \<Longrightarrow>
    act S (Live ps) (Call t) (Live (called t i (request_read S i ps) r rd w ps))"
| call_raises: "doing t (Calling i) ps \<Longrightarrow>
    call_handler S (request_read S i ps) (dispatcher (shared ps)) (world (shared ps)) = Some (Inl e, w) \<Longrightarrow>
    act S (Live ps) (Call t) (Crashed e)"
| finish: "doing t (Recording i request r) ps \<Longrightarrow>
    record_request (uri_of request) (code_of r) (dispatcher (shared ps)) = Inr rd \<Longrightarrow>
    act S (Live ps) (Finish t) (Live (finished t i (finish_read r (sessions (shared ps) ! i)) rd ps))"
| finish_raises: "doing t (Recording i request r) ps \<Longrightarrow>
    record_request (uri_of request) (code_of r) (dispatcher (shared ps)) = Inl e \<Longrightarrow>
    act S (Live ps) (Finish t) (Crashed e)"
| sigterm: "act S (Live ps) Sigterm (handle_sigterm ps)"
| sigint: "act S (Live ps) Sigint (handle_sigint ps)"

inductive acts ::
  "('c, 'w, 'd, 'e) setting \<Rightarrow> ('c, 'w) process_state \<Rightarrow> action list \<Rightarrow> ('c, 'w) process_state \<Rightarrow> bool" for S where
  acts_Nil: "acts S state [] state"
| acts_Cons: "act S state a state' \<Longrightarrow> acts S state' as state'' \<Longrightarrow> acts S state (a # as) state''"

inductive_cases acts_NilE: "acts S state [] state'"
inductive_cases acts_ConsE: "acts S state (a # as) state'"

lemma acts_simps:
  "acts S state [] state' \<longleftrightarrow> state' = state"
  "acts S state (a # as) state' \<longleftrightarrow> (\<exists>t. act S state a t \<and> acts S t as state')"
  by (auto intro: acts.intros elim: acts_NilE acts_ConsE)

text \<open>The process that \<open>main\<close> starts with a server: one \<open>async_accept\<close> is under way, and every thread is free.\<close>

definition new_process :: "('c, 'w) server \<Rightarrow> ('c, 'w) process" where
  "new_process sv = \<lparr>operations = [Accept_operation], workers = replicate THREAD_POOL_SIZE None, shared = sv\<rparr>"

subsection \<open>Data races\<close>

text \<open>The objects of the dispatcher that handlers of different sessions share, and the use that the next action of a thread makes of them.\<close>

datatype shared_object = Table | Handler_object string

definition table_access :: "string \<Rightarrow> 'c request_dispatcher \<Rightarrow> (shared_object \<times> bool) list" where
  "table_access k rd = [(Table, map_of (table rd) k = None)]"

text \<open>
  The blog handler keeps the form of the request it handles in its member \<open>form_to_value_\<close>; the other handlers only read
  their members while they handle a request.
\<close>

fun keeps_form :: "'c handler option option \<Rightarrow> bool" where
  "keeps_form (Some (Some (BlogHandler h))) = True"
| "keeps_form _ = False"

fun accesses :: "('c, 'w, 'd, 'e) setting \<Rightarrow> ('c, 'w) process \<Rightarrow> task \<Rightarrow> (shared_object \<times> bool) list" where
  "accesses S ps (Calling i) =
     (case handler_key (iteration_order S) (config_of (dispatcher (shared ps))) (uri_of (request_read S i ps)) of
        None \<Rightarrow> []
      | Some k \<Rightarrow> table_access k (dispatcher (shared ps)) @ [(Handler_object k, keeps_form (map_of (table (dispatcher (shared ps))) k))])"
| "accesses S ps (Recording i request r) =
     (if status_handler_enabled (dispatcher (shared ps))
      then table_access ''/status'' (dispatcher (shared ps)) @ [(Handler_object ''/status'', True)] else [])"

definition conflict :: "(shared_object \<times> bool) list \<Rightarrow> (shared_object \<times> bool) list \<Rightarrow> bool" where
  "conflict as bs \<longleftrightarrow> list_ex (\<lambda>(x, v). list_ex (\<lambda>(y, w). x = y \<and> (v \<or> w)) bs) as"

definition data_race :: "('c, 'w, 'd, 'e) setting \<Rightarrow> ('c, 'w) process \<Rightarrow> bool" where
  "data_race S ps \<longleftrightarrow> (\<exists>t u task task'. t \<noteq> u \<and> doing t task ps \<and> doing u task' ps \<and>
     conflict (accesses S ps task) (accesses S ps task'))"

end
