(* ===== verification/ThreadFacts.thy ===== *)
theory ThreadFacts
  imports Threads ServerHistory
begin

text \<open>
  What holds of the threads: no session has two of its handlers running or waiting (\<open>process_ok\<close>), and without a status
  handler every interleaving is one of the runs of \<open>Server\<close>, with each request served at the moment of its \<open>Call\<close> (\<open>matches\<close>).
\<close>

subsection \<open>One handler at a time for each session\<close>

fun is_on :: "nat \<Rightarrow> operation \<Rightarrow> bool" where
  "is_on i Accept_operation = False"
| "is_on i (Operation j io) \<longleftrightarrow> j = i"

fun task_on :: "nat \<Rightarrow> task option \<Rightarrow> bool" where
  "task_on i None = False"
| "task_on i (Some (Calling j)) \<longleftrightarrow> j = i"
| "task_on i (Some (Recording j request r)) \<longleftrightarrow> j = i"

definition busy :: "nat \<Rightarrow> ('c, 'w) process \<Rightarrow> bool" where
  "busy i ps \<longleftrightarrow> (\<exists>t < length (workers ps). task_on i (workers ps ! t))"

definition process_ok :: "('c, 'w) process \<Rightarrow> bool" where
  "process_ok ps \<longleftrightarrow>
     filter (\<lambda>op. op = Accept_operation) (operations ps) = [Accept_operation] \<and>
     (\<forall>i. filter (is_on i) (operations ps) =
        (if busy i ps \<or> length (sessions (shared ps)) \<le> i then [] else started i (pending (sessions (shared ps) ! i)))) \<and>
     (\<forall>i. busy i ps \<longrightarrow> i < length (sessions (shared ps)) \<and> pending (sessions (shared ps) ! i) = Reading) \<and>
     (\<forall>i t u. t < length (workers ps) \<longrightarrow> u < length (workers ps) \<longrightarrow>
        task_on i (workers ps ! t) \<longrightarrow> task_on i (workers ps ! u) \<longrightarrow> t = u)"

lemma started_filter [simp]:
  "filter (is_on i) (started i io) = started i io" "j \<noteq> i \<Longrightarrow> filter (is_on j) (started i io) = []"
  "filter (\<lambda>op. op = Accept_operation) (started i io) = []"
  by (cases io; simp)+

lemma in_started: "Operation j io \<in> set (started i io') \<longleftrightarrow> j = i \<and> io' = io \<and> io \<in> {Reading, Writing, Writing_last}"
  by (cases io') auto

lemma process_ok_new: "sessions sv = [] \<Longrightarrow> process_ok (new_process sv)"
  by (auto simp: process_ok_def new_process_def busy_def)

text \<open>An operation under way is the one its session is waiting for, and no thread runs a handler of the session.\<close>

lemma operation_pending:
  assumes "process_ok ps" "Operation i io \<in> set (operations ps)"
  shows "\<not> busy i ps" "i < length (sessions (shared ps))" "pending (sessions (shared ps) ! i) = io"
    "filter (is_on i) (operations ps) = [Operation i io]"
proof -
  have "Operation i io \<in> set (filter (is_on i) (operations ps))" using assms(2) by simp
  moreover have "filter (is_on i) (operations ps) = (if busy i ps \<or> length (sessions (shared ps)) \<le> i then []
      else started i (pending (sessions (shared ps) ! i)))"
    using assms(1) by (simp add: process_ok_def)
  ultimately show "\<not> busy i ps" "i < length (sessions (shared ps))" "pending (sessions (shared ps) ! i) = io"
    "filter (is_on i) (operations ps) = [Operation i io]"
    by (auto split: if_splits simp: in_started)
qed

lemma doing_busy: "doing t (Calling i) ps \<Longrightarrow> busy i ps" "doing t (Recording i request r) ps \<Longrightarrow> busy i ps"
  by (auto simp: doing_def busy_def)

lemma busy_same: "workers ps' = workers ps \<Longrightarrow> busy i ps' \<longleftrightarrow> busy i ps"
  by (simp add: busy_def)

lemma busy_update:
  assumes "t < length (workers ps)" "workers ps' = (workers ps)[t := task]"
    and "\<And>u. u < length (workers ps) \<Longrightarrow> u \<noteq> t \<Longrightarrow> \<not> task_on i (workers ps ! u)"
  shows "busy i ps' \<longleftrightarrow> task_on i task"
  using assms by (auto simp: busy_def nth_list_update)

lemma busy_other:
  assumes "t < length (workers ps)" "workers ps' = (workers ps)[t := task]"
    and "\<not> task_on i (workers ps ! t)" "\<not> task_on i task"
  shows "busy i ps' \<longleftrightarrow> busy i ps"
  using assms unfolding busy_def by (metis length_list_update nth_list_update_eq nth_list_update_neq)

text \<open>The invariant for the session \<open>i\<close> that an action is about, and for the others.\<close>

lemma process_okI:
  assumes "process_ok ps"
    and "filter (\<lambda>op. op = Accept_operation) (operations ps') = [Accept_operation]"
    and "filter (is_on i) (operations ps') =
      (if busy i ps' \<or> length (sessions (shared ps')) \<le> i then [] else started i (pending (sessions (shared ps') ! i)))"
    and "busy i ps' \<Longrightarrow> i < length (sessions (shared ps')) \<and> pending (sessions (shared ps') ! i) = Reading"
    and "\<And>j. j \<noteq> i \<Longrightarrow> filter (is_on j) (operations ps') = filter (is_on j) (operations ps)"
    and "\<And>j. j \<noteq> i \<Longrightarrow> j < length (sessions (shared ps')) \<longleftrightarrow> j < length (sessions (shared ps))"
    and "\<And>j. j \<noteq> i \<Longrightarrow> j < length (sessions (shared ps)) \<Longrightarrow>
      pending (sessions (shared ps') ! j) = pending (sessions (shared ps) ! j)"
    and "\<And>j. j \<noteq> i \<Longrightarrow> busy j ps' \<longleftrightarrow> busy j ps"
    and "\<And>j t u. t < length (workers ps') \<Longrightarrow> u < length (workers ps') \<Longrightarrow>
        task_on j (workers ps' ! t) \<Longrightarrow> task_on j (workers ps' ! u) \<Longrightarrow> t = u"
  shows "process_ok ps'"
  unfolding process_ok_def
proof (intro conjI allI impI)
  fix j
  show "filter (is_on j) (operations ps') =
      (if busy j ps' \<or> length (sessions (shared ps')) \<le> j then [] else started j (pending (sessions (shared ps') ! j)))"
  proof (cases "j = i")
    case False
    have "filter (is_on j) (operations ps) =
        (if busy j ps \<or> length (sessions (shared ps)) \<le> j then [] else started j (pending (sessions (shared ps) ! j)))"
      using assms(1) by (simp add: process_ok_def)
    then show ?thesis using assms(5-8) [OF False] by (simp add: not_less [symmetric])
  qed (use assms(3) in simp)
  assume "busy j ps'"
  then show "j < length (sessions (shared ps'))" "pending (sessions (shared ps') ! j) = Reading"
    using assms(1,4) assms(6-8) [of j] by (cases "j = i"; auto simp: process_ok_def)+
qed (use assms(2,9) in auto)

lemma filter_remove_accept:
  "op \<noteq> Accept_operation \<Longrightarrow> filter (\<lambda>op. op = Accept_operation) (remove1 op ops) = filter (\<lambda>op. op = Accept_operation) ops"
  by (induction ops) auto

lemma filter_remove_on:
  "\<not> is_on j op \<Longrightarrow> filter (is_on j) (remove1 op ops) = filter (is_on j) ops"
  "is_on j op \<Longrightarrow> filter (is_on j) ops = [op] \<Longrightarrow> filter (is_on j) (remove1 op ops) = []"
  by (induction ops) (auto split: if_splits)

lemma one_thread:
  assumes "process_ok ps" "t < length (workers ps)" "u < length (workers ps)" "task_on i (workers ps ! t)" "task_on i (workers ps ! u)"
  shows "t = u"
  using assms unfolding process_ok_def by blast

lemma process_ok_ran:
  assumes "process_ok ps" "Operation i io \<in> set (operations ps)"
  shows "process_ok (ran i io s ps)"
proof (rule process_okI [OF assms(1), where i = i])
  note free = operation_pending [OF assms]
  have same: "busy j (ran i io s ps) \<longleftrightarrow> busy j ps" for j by (rule busy_same) (simp add: ran_def)
  show "filter (is_on i) (operations (ran i io s ps)) = (if busy i (ran i io s ps) \<or>
      length (sessions (shared (ran i io s ps))) \<le> i then [] else started i (pending (sessions (shared (ran i io s ps)) ! i)))"
    using free same by (simp add: ran_def filter_remove_on(2))
  show "filter (\<lambda>op. op = Accept_operation) (operations (ran i io s ps)) = [Accept_operation]"
    using assms(1) by (simp add: ran_def filter_remove_accept process_ok_def)
  show "busy i (ran i io s ps) \<Longrightarrow> i < length (sessions (shared (ran i io s ps))) \<and>
      pending (sessions (shared (ran i io s ps)) ! i) = Reading"
    using free same by simp
  fix j assume j: "j \<noteq> i"
  then show "filter (is_on j) (operations (ran i io s ps)) = filter (is_on j) (operations ps)"
    by (simp add: ran_def filter_remove_on(1))
  show "j < length (sessions (shared (ran i io s ps))) \<longleftrightarrow> j < length (sessions (shared ps))"
    "pending (sessions (shared (ran i io s ps)) ! j) = pending (sessions (shared ps) ! j)"
    "busy j (ran i io s ps) \<longleftrightarrow> busy j ps"
    using j same by (simp_all add: ran_def)
next
  fix j t u
  assume "t < length (workers (ran i io s ps))" "u < length (workers (ran i io s ps))"
    "task_on j (workers (ran i io s ps) ! t)" "task_on j (workers (ran i io s ps) ! u)"
  then show "t = u" using one_thread [OF assms(1), of t u j] by (simp add: ran_def)
qed

lemma process_ok_accepted:
  assumes "process_ok ps" "accepting (shared ps) = new_session"
  shows "process_ok (connection_made error ps)"
proof (rule process_okI [OF assms(1), where i = "length (sessions (shared ps))"])
  let ?n = "length (sessions (shared ps))"
  have same: "busy j (connection_made error ps) \<longleftrightarrow> busy j ps" for j by (rule busy_same) (simp add: connection_made_def)
  have free: "\<not> busy ?n ps" "filter (is_on ?n) (operations ps) = []" using assms(1) by (auto simp: process_ok_def)
  have one: "filter (\<lambda>op. op = Accept_operation) (operations ps) = [Accept_operation]" using assms(1) by (simp add: process_ok_def)
  have "filter (\<lambda>op. op = Accept_operation) (remove1 Accept_operation (operations ps)) = []"
    using one by (simp add: filter_remove1)
  then show "filter (\<lambda>op. op = Accept_operation) (operations (connection_made error ps)) = [Accept_operation]"
    by (simp add: connection_made_def)
  show "filter (is_on ?n) (operations (connection_made error ps)) = (if busy ?n (connection_made error ps) \<or>
      length (sessions (shared (connection_made error ps))) \<le> ?n then []
      else started ?n (pending (sessions (shared (connection_made error ps)) ! ?n)))"
    using free same assms(2) by (simp add: connection_made_def filter_remove_on(1) start_def async_read_some_def)
  show "busy ?n (connection_made error ps) \<Longrightarrow> ?n < length (sessions (shared (connection_made error ps))) \<and>
      pending (sessions (shared (connection_made error ps)) ! ?n) = Reading"
    using free same by simp
  fix j assume j: "j \<noteq> ?n"
  then show "filter (is_on j) (operations (connection_made error ps)) = filter (is_on j) (operations ps)"
    by (simp add: connection_made_def filter_remove_on(1))
  show "j < length (sessions (shared (connection_made error ps))) \<longleftrightarrow> j < ?n" using j by (auto simp: connection_made_def)
  show "pending (sessions (shared (connection_made error ps)) ! j) = pending (sessions (shared ps) ! j)" if "j < ?n"
    using that by (simp add: connection_made_def nth_append)
  show "busy j (connection_made error ps) \<longleftrightarrow> busy j ps" by (rule same)
next
  fix j t u
  assume "t < length (workers (connection_made error ps))" "u < length (workers (connection_made error ps))"
    "task_on j (workers (connection_made error ps) ! t)" "task_on j (workers (connection_made error ps) ! u)"
  then show "t = u" using one_thread [OF assms(1), of t u j] by (simp add: connection_made_def)
qed

text \<open>A thread takes up, goes on with or puts down a task.\<close>

lemma one_thread_update:
  assumes "process_ok ps" "workers ps' = (workers ps)[t := task]" "t < length (workers ps)"
    and "\<forall>j u. task_on j task \<longrightarrow> u < length (workers ps) \<longrightarrow> task_on j (workers ps ! u) \<longrightarrow> u = t"
    and "u < length (workers ps')" "v < length (workers ps')" "task_on j (workers ps' ! u)" "task_on j (workers ps' ! v)"
  shows "u = v"
proof (cases "u = t \<or> v = t")
  case True
  with assms show ?thesis by (cases "u = t"; cases "v = t") auto
next
  case False
  with assms one_thread [OF assms(1), of u v j] show ?thesis by simp
qed

lemma process_ok_start_call:
  assumes "process_ok ps" "Operation i Reading \<in> set (operations ps)" "idle_thread t ps" "pending s = Reading"
  shows "process_ok (start_call t i s ps)"
proof (rule process_okI [OF assms(1), where i = i])
  let ?ps = "start_call t i s ps"
  note free = operation_pending [OF assms(1,2)]
  have t: "t < length (workers ps)" "workers ps ! t = None" using assms(3) by (simp_all add: idle_thread_def)
  have w: "workers ?ps = (workers ps)[t := Some (Calling i)]" by (simp add: start_call_def)
  have busy: "busy i ?ps" using t w by (auto simp: busy_def)
  show "filter (\<lambda>op. op = Accept_operation) (operations ?ps) = [Accept_operation]"
    using assms(1) by (simp add: start_call_def filter_remove_accept process_ok_def)
  show "filter (is_on i) (operations ?ps) = (if busy i ?ps \<or> length (sessions (shared ?ps)) \<le> i then []
      else started i (pending (sessions (shared ?ps) ! i)))"
    using free busy by (simp add: start_call_def filter_remove_on(2))
  show "i < length (sessions (shared ?ps)) \<and> pending (sessions (shared ?ps) ! i) = Reading"
    using free assms(4) by (simp add: start_call_def)
  fix j assume j: "j \<noteq> i"
  then show "filter (is_on j) (operations ?ps) = filter (is_on j) (operations ps)"
    "j < length (sessions (shared ?ps)) \<longleftrightarrow> j < length (sessions (shared ps))"
    "pending (sessions (shared ?ps) ! j) = pending (sessions (shared ps) ! j)"
    by (simp_all add: start_call_def filter_remove_on(1))
  show "busy j ?ps \<longleftrightarrow> busy j ps"
    by (rule busy_other [OF t(1) w]) (use j t(2) in simp_all)
next
  fix j u v
  have t: "t < length (workers ps)" using assms(3) by (simp add: idle_thread_def)
  have none: "\<forall>j u. task_on j (Some (Calling i)) \<longrightarrow> u < length (workers ps) \<longrightarrow> task_on j (workers ps ! u) \<longrightarrow> u = t"
    using operation_pending(1) [OF assms(1,2)] by (auto simp: busy_def)
  have w: "workers (start_call t i s ps) = (workers ps)[t := Some (Calling i)]" by (simp add: start_call_def)
  assume "u < length (workers (start_call t i s ps))" "v < length (workers (start_call t i s ps))"
    "task_on j (workers (start_call t i s ps) ! u)" "task_on j (workers (start_call t i s ps) ! v)"
  then show "u = v"
    by (rule one_thread_update [OF assms(1) w t none])
qed

lemma process_ok_called:
  assumes "process_ok ps" "doing t (Calling i) ps"
  shows "process_ok (called t i request r rd w ps)"
proof (rule process_okI [OF assms(1), where i = i])
  let ?ps = "called t i request r rd w ps"
  have t: "t < length (workers ps)" "workers ps ! t = Some (Calling i)" using assms(2) by (simp_all add: doing_def)
  have w: "workers ?ps = (workers ps)[t := Some (Recording i request r)]" by (simp add: called_def)
  have busy: "busy i ?ps" "busy i ps" using t w by (auto simp: busy_def)
  show "filter (\<lambda>op. op = Accept_operation) (operations ?ps) = [Accept_operation]"
    using assms(1) by (simp add: called_def process_ok_def)
  show "filter (is_on i) (operations ?ps) = (if busy i ?ps \<or> length (sessions (shared ?ps)) \<le> i then []
      else started i (pending (sessions (shared ?ps) ! i)))"
    using assms(1) busy by (simp add: called_def process_ok_def)
  show "i < length (sessions (shared ?ps)) \<and> pending (sessions (shared ?ps) ! i) = Reading"
    using assms(1) busy by (simp add: called_def process_ok_def)
  fix j assume j: "j \<noteq> i"
  then show "filter (is_on j) (operations ?ps) = filter (is_on j) (operations ps)"
    "j < length (sessions (shared ?ps)) \<longleftrightarrow> j < length (sessions (shared ps))"
    "pending (sessions (shared ?ps) ! j) = pending (sessions (shared ps) ! j)"
    by (simp_all add: called_def)
  show "busy j ?ps \<longleftrightarrow> busy j ps"
    by (rule busy_other [OF t(1) w]) (use j t(2) in simp_all)
next
  fix j u v
  have t: "t < length (workers ps)" "workers ps ! t = Some (Calling i)" using assms(2) by (simp_all add: doing_def)
  have mine: "\<forall>j u. task_on j (Some (Recording i request r)) \<longrightarrow> u < length (workers ps) \<longrightarrow> task_on j (workers ps ! u) \<longrightarrow> u = t"
    using one_thread [OF assms(1) _ t(1)] t(2) by simp
  have w: "workers (called t i request r rd w ps) = (workers ps)[t := Some (Recording i request r)]" by (simp add: called_def)
  assume "u < length (workers (called t i request r rd w ps))" "v < length (workers (called t i request r rd w ps))"
    "task_on j (workers (called t i request r rd w ps) ! u)" "task_on j (workers (called t i request r rd w ps) ! v)"
  then show "u = v"
    by (rule one_thread_update [OF assms(1) w t(1) mine])
qed

lemma process_ok_finished:
  assumes "process_ok ps" "doing t (Recording i request r) ps"
  shows "process_ok (finished t i s rd ps)"
proof (rule process_okI [OF assms(1), where i = i])
  let ?ps = "finished t i s rd ps"
  have t: "t < length (workers ps)" "workers ps ! t = Some (Recording i request r)" using assms(2) by (simp_all add: doing_def)
  have w: "workers ?ps = (workers ps)[t := None]" by (simp add: finished_def)
  have was: "busy i ps" "i < length (sessions (shared ps))" "filter (is_on i) (operations ps) = []"
    using doing_busy(2) [OF assms(2)] assms(1) by (auto simp: process_ok_def)
  have "busy i ?ps \<longleftrightarrow> task_on i None"
    using one_thread [OF assms(1) _ t(1), of _ i] t(2) by (intro busy_update [OF t(1) w]) auto
  then have free: "\<not> busy i ?ps" by simp
  show "filter (\<lambda>op. op = Accept_operation) (operations ?ps) = [Accept_operation]"
    using assms(1) by (simp add: finished_def process_ok_def)
  show "filter (is_on i) (operations ?ps) = (if busy i ?ps \<or> length (sessions (shared ?ps)) \<le> i then []
      else started i (pending (sessions (shared ?ps) ! i)))"
    using free was by (simp add: finished_def)
  show "busy i ?ps \<Longrightarrow> i < length (sessions (shared ?ps)) \<and> pending (sessions (shared ?ps) ! i) = Reading"
    using free by simp
  fix j assume j: "j \<noteq> i"
  then show "filter (is_on j) (operations ?ps) = filter (is_on j) (operations ps)"
    "j < length (sessions (shared ?ps)) \<longleftrightarrow> j < length (sessions (shared ps))"
    "pending (sessions (shared ?ps) ! j) = pending (sessions (shared ps) ! j)"
    by (simp_all add: finished_def)
  show "busy j ?ps \<longleftrightarrow> busy j ps"
    by (rule busy_other [OF t(1) w]) (use j t(2) in simp_all)
next
  fix j u v
  have t: "t < length (workers ps)" using assms(2) by (simp add: doing_def)
  have w: "workers (finished t i s rd ps) = (workers ps)[t := None]" by (simp add: finished_def)
  have rest: "\<forall>j u. task_on j None \<longrightarrow> u < length (workers ps) \<longrightarrow> task_on j (workers ps ! u) \<longrightarrow> u = t" by simp
  assume "u < length (workers (finished t i s rd ps))" "v < length (workers (finished t i s rd ps))"
    "task_on j (workers (finished t i s rd ps) ! u)" "task_on j (workers (finished t i s rd ps) ! v)"
  then show "u = v"
    by (rule one_thread_update [OF assms(1) w t rest])
qed

text \<open>The invariant of every action.\<close>

lemma begin_read_pending: "begin_read n s = (s', True) \<Longrightarrow> pending s' = pending s"
  by (auto simp: begin_read_def split: prod.splits result_type.splits)

fun process_state_ok :: "('c, 'w) process_state \<Rightarrow> bool" where
  "process_state_ok (Live ps) \<longleftrightarrow> process_ok ps \<and> accepting (shared ps) = new_session"
| "process_state_ok state \<longleftrightarrow> True"

lemma shared_accepting [simp]:
  "accepting (shared (ran i io s ps)) = accepting (shared ps)" "accepting (shared (connection_made error ps)) = new_session"
  "accepting (shared (start_call t i s ps)) = accepting (shared ps)"
  "accepting (shared (called t i request r rd w ps)) = accepting (shared ps)"
  "accepting (shared (finished t i s rd ps)) = accepting (shared ps)"
  by (simp_all add: ran_def connection_made_def start_call_def called_def finished_def)

interpretation strand: stepping "act S" "acts S" process_state_ok for S
proof
  fix state a state'
  assume "process_state_ok state" "act S state a state'"
  from this(2,1) show "process_state_ok state'"
  proof (cases rule: act.cases)
    case (read_request t ps i bytes s)
    then have "pending s = Reading"
      using begin_read_pending [OF read_request(8)] operation_pending(3) [of ps i Reading] \<open>process_state_ok state\<close> by simp
    with read_request \<open>process_state_ok state\<close> show ?thesis by (simp add: process_ok_start_call)
  qed (simp_all add: process_ok_ran process_ok_accepted process_ok_called process_ok_finished)
qed (simp_all add: acts_simps)

subsection \<open>A pool without a status handler runs the requests one after the other\<close>

text \<open>The bytes of a client that the threads have taken.\<close>

fun taken :: "nat \<Rightarrow> action list \<Rightarrow> string" where
  "taken i [] = []"
| "taken i (Begin t event # as) = received i [event] @ taken i as"
| "taken i (_ # as) = taken i as"

lemma taken_append [simp]: "taken i (as @ bs) = taken i as @ taken i bs"
  by (induction i as rule: taken.induct) simp_all

text \<open>What the threads do for a session.\<close>

definition stage :: "nat \<Rightarrow> ('c, 'w) process \<Rightarrow> task option" where
  "stage i ps = (case find (task_on i) (workers ps) of None \<Rightarrow> None | Some task \<Rightarrow> task)"

lemma stage_same: "workers ps' = workers ps \<Longrightarrow> stage i ps' = stage i ps"
  by (simp add: stage_def)

lemma stage_free:
  assumes "\<not> busy i ps"
  shows "stage i ps = None"
proof -
  have "find (task_on i) (workers ps) = None"
    using assms by (auto simp: find_None_iff busy_def in_set_conv_nth)
  then show ?thesis by (simp add: stage_def)
qed

lemma find_only:
  assumes "t < length xs" "P (xs ! t)" "\<And>u. u < length xs \<Longrightarrow> P (xs ! u) \<Longrightarrow> u = t"
  shows "find P xs = Some (xs ! t)"
  unfolding find_Some_iff
proof (intro exI conjI allI impI)
  fix j assume "j < t"
  then show "\<not> P (xs ! j)" using assms(1) assms(3) [of j] by auto
qed (use assms(1,2) in simp_all)

lemma stage_doing:
  assumes "process_ok ps" "doing t task ps" "task_on i (Some task)"
  shows "stage i ps = Some task"
proof -
  have t: "t < length (workers ps)" "workers ps ! t = Some task" using assms(2) by (simp_all add: doing_def)
  have "find (task_on i) (workers ps) = Some (workers ps ! t)"
  proof (rule find_only [OF t(1)])
    show "task_on i (workers ps ! t)" using t(2) assms(3) by simp
    then show "u = t" if "u < length (workers ps)" "task_on i (workers ps ! u)" for u
      using one_thread [OF assms(1) that(1) t(1) that(2)] by simp
  qed
  with t(2) show ?thesis by (simp add: stage_def)
qed

lemma find_update: "\<not> P (xs ! t) \<Longrightarrow> \<not> P y \<Longrightarrow> find P (xs[t := y]) = find P xs"
  by (induction xs arbitrary: t) (auto split: nat.split)

lemma stage_other:
  "workers ps' = (workers ps)[t := task] \<Longrightarrow> \<not> task_on j (workers ps ! t) \<Longrightarrow> \<not> task_on j task \<Longrightarrow> stage j ps' = stage j ps"
  by (simp add: stage_def find_update)

text \<open>
  A server that runs one handler at a time has served the requests that have been called: a request that has only been parsed
  has not been read yet, and one that has still to be recorded is finished.
\<close>

fun session_matches :: "task option \<Rightarrow> string \<Rightarrow> string \<Rightarrow> session \<Rightarrow> session \<Rightarrow> bool" where
  "session_matches None xs ys s s' \<longleftrightarrow> s' = s \<and> xs = ys"
| "session_matches (Some (Calling i)) xs ys s s' \<longleftrightarrow> (\<exists>bytes. bytes \<noteq> [] \<and> length bytes \<le> max_length \<and>
     pending s' = Reading \<and> begin_read (length bytes) (receive bytes s') = (s, True) \<and> xs = ys @ bytes)"
| "session_matches (Some (Recording i request r)) xs ys s s' \<longleftrightarrow> s' = finish_read r s \<and> xs = ys"

definition matches ::
  "action list \<Rightarrow> event list \<Rightarrow> ('c, 'w) process \<Rightarrow> ('c, 'w) server \<Rightarrow> bool" where
  "matches as es ps sv \<longleftrightarrow>
     dispatcher sv = dispatcher (shared ps) \<and> world sv = world (shared ps) \<and> accepting sv = accepting (shared ps) \<and>
     length (sessions sv) = length (sessions (shared ps)) \<and>
     (\<forall>i. if i < length (sessions sv)
          then session_matches (stage i ps) (taken i as) (received i es) (sessions (shared ps) ! i) (sessions sv ! i)
          else taken i as = [] \<and> received i es = [])"

lemma matches_new: "sessions sv = [] \<Longrightarrow> matches [] [] (new_process sv) sv"
  by (simp add: matches_def new_process_def)

lemma matches_stage:
  "matches as es ps sv \<Longrightarrow> i < length (sessions (shared ps)) \<Longrightarrow> stage i ps = task \<Longrightarrow>
   session_matches task (taken i as) (received i es) (sessions (shared ps) ! i) (sessions sv ! i)"
  unfolding matches_def by metis

lemma matches_free:
  assumes "matches as es ps sv" "process_ok ps" "Operation i io \<in> set (operations ps)"
  shows "i < length (sessions sv)" "sessions sv ! i = sessions (shared ps) ! i" "pending (sessions sv ! i) = io"
    "taken i as = received i es" "stage i ps = None"
proof -
  note free = operation_pending [OF assms(2,3)]
  then show "stage i ps = None" by (simp add: stage_free)
  from matches_stage [OF assms(1) free(2) this] show "sessions sv ! i = sessions (shared ps) ! i" "taken i as = received i es"
    by simp_all
  with free assms(1) show "pending (sessions sv ! i) = io" "i < length (sessions sv)" by (simp_all add: matches_def)
qed

text \<open>An action that is about the session \<open>i\<close>.\<close>

lemma matches_session:
  assumes "matches as es ps sv" "i < length (sessions (shared ps))"
    and "\<And>j. j \<noteq> i \<Longrightarrow> stage j ps' = stage j ps"
    and "\<And>j. j \<noteq> i \<Longrightarrow> taken j as' = [] \<and> received j es' = []"
    and "session_matches (stage i ps') (taken i (as @ as')) (received i (es @ es')) s s'"
    and "shared ps' = put_session i s ((shared ps)\<lparr>dispatcher := rd, world := w\<rparr>)"
    and "sv' = put_session i s' (sv\<lparr>dispatcher := rd, world := w\<rparr>)"
  shows "matches (as @ as') (es @ es') ps' sv'"
proof -
  have each: "if j < length (sessions sv')
      then session_matches (stage j ps') (taken j (as @ as')) (received j (es @ es')) (sessions (shared ps') ! j) (sessions sv' ! j)
      else taken j (as @ as') = [] \<and> received j (es @ es') = []" for j
  proof (cases "j = i")
    case True
    with assms(1,2,5) show ?thesis by (simp add: assms(6,7) matches_def)
  next
    case False
    with assms(1) show ?thesis by (simp add: assms(3,4,6,7) matches_def)
  qed
  show ?thesis unfolding matches_def
    by (intro conjI allI each) (use assms(1) in \<open>simp_all add: matches_def assms(6,7)\<close>)
qed

lemma matches_ran:
  assumes "matches as es ps sv" "process_ok ps" "Operation i io \<in> set (operations ps)"
    and "\<And>j. j \<noteq> i \<Longrightarrow> received j [event] = []"
  shows "matches (as @ [Begin t event]) (es @ [event]) (ran i io s ps) (put_session i s sv)"
proof (rule matches_session [OF assms(1), where i = i])
  have same: "stage j (ran i io s ps) = stage j ps" for j by (rule stage_same) (simp add: ran_def)
  then show "stage j (ran i io s ps) = stage j ps" if "j \<noteq> i" for j by simp
  show "session_matches (stage i (ran i io s ps)) (taken i (as @ [Begin t event])) (received i (es @ [event])) s s"
    using matches_free(4,5) [OF assms(1-3)] by (simp add: same)
  show "shared (ran i io s ps) = put_session i s ((shared ps)\<lparr>dispatcher := dispatcher (shared ps), world := world (shared ps)\<rparr>)"
    by (simp add: ran_def)
  have "sv\<lparr>dispatcher := dispatcher (shared ps), world := world (shared ps)\<rparr> = sv"
    using assms(1) by (cases sv) (simp add: matches_def)
  then show "put_session i s sv = put_session i s (sv\<lparr>dispatcher := dispatcher (shared ps), world := world (shared ps)\<rparr>)"
    by (simp only:)
qed (use assms(4) operation_pending [OF assms(2,3)] in simp_all)

lemma matches_accepted:
  assumes "matches as es ps sv" "process_ok ps"
  shows "matches (as @ [Begin t (Accept_done error)]) (es @ [Accept_done error]) (connection_made error ps) (handle_accept error sv)"
proof -
  let ?ps = "connection_made error ps" and ?sv = "handle_accept error sv" and ?n = "length (sessions sv)"
  have same: "stage j ?ps = stage j ps" for j by (rule stage_same) (simp add: connection_made_def)
  have shared: "shared ?ps = handle_accept error (shared ps)" by (simp add: connection_made_def)
  have n: "length (sessions (shared ps)) = ?n" "accepting sv = accepting (shared ps)" using assms(1) by (simp_all add: matches_def)
  then have "\<not> busy ?n ps" using assms(2) by (auto simp: process_ok_def)
  note fresh = stage_free [OF this]
  have each: "if j < length (sessions ?sv)
      then session_matches (stage j ?ps) (taken j (as @ [Begin t (Accept_done error)])) (received j (es @ [Accept_done error]))
        (sessions (shared ?ps) ! j) (sessions ?sv ! j)
      else taken j (as @ [Begin t (Accept_done error)]) = [] \<and> received j (es @ [Accept_done error]) = []" for j
  proof -
    have old: "if j < ?n then session_matches (stage j ps) (taken j as) (received j es) (sessions (shared ps) ! j) (sessions sv ! j)
        else taken j as = [] \<and> received j es = []"
      using assms(1) by (simp add: matches_def)
    show ?thesis
    proof (cases "j < ?n")
      case True
      with old n show ?thesis by (simp add: same shared nth_append)
    next
      case False
      with old n fresh show ?thesis by (cases "j = ?n") (simp_all add: same shared nth_append)
    qed
  qed
  show ?thesis unfolding matches_def
    by (intro conjI allI each) (use assms(1) n in \<open>simp_all add: matches_def shared\<close>)
qed

lemma unchanged: "matches as es ps sv \<Longrightarrow> sv\<lparr>dispatcher := dispatcher (shared ps), world := world (shared ps)\<rparr> = sv"
  by (cases sv) (simp add: matches_def)

text \<open>The three parts of a request: only \<open>Call\<close> is a step of the server that runs one handler at a time.\<close>

lemma matches_start_call:
  assumes "matches as es ps sv" "process_ok ps" "Operation i Reading \<in> set (operations ps)" "idle_thread t ps"
    and "bytes \<noteq> []" "length bytes \<le> max_length" "begin_read (length bytes) (receive bytes (sessions (shared ps) ! i)) = (s, True)"
  shows "matches (as @ [Begin t (Read_done i bytes)]) (es @ []) (start_call t i s ps) sv"
proof (rule matches_session [OF assms(1), where i = i])
  let ?ps = "start_call t i s ps"
  note free = operation_pending [OF assms(2,3)] and ours = matches_free [OF assms(1-3)]
  have t: "t < length (workers ps)" "workers ps ! t = None" using assms(4) by (simp_all add: idle_thread_def)
  have w: "workers ?ps = (workers ps)[t := Some (Calling i)]" by (simp add: start_call_def)
  show "stage j ?ps = stage j ps" if "j \<noteq> i" for j
    by (rule stage_other [OF w]) (use t that in simp_all)
  have "pending s = Reading" using begin_read_pending [OF assms(7)] free(3) by simp
  then have "process_ok ?ps" by (rule process_ok_start_call [OF assms(2-4)])
  then have "stage i ?ps = Some (Calling i)"
    by (rule stage_doing [where t = t]) (use t in \<open>simp_all add: doing_def start_call_def\<close>)
  then show "session_matches (stage i ?ps) (taken i (as @ [Begin t (Read_done i bytes)])) (received i (es @ [])) s (sessions sv ! i)"
    using ours assms(5-7) by (auto intro!: exI [of _ bytes])
  show "shared ?ps = put_session i s ((shared ps)\<lparr>dispatcher := dispatcher (shared ps), world := world (shared ps)\<rparr>)"
    by (simp add: start_call_def)
  show "sv = put_session i (sessions sv ! i) (sv\<lparr>dispatcher := dispatcher (shared ps), world := world (shared ps)\<rparr>)"
    unfolding unchanged [OF assms(1)] by simp
qed (use operation_pending(2) [OF assms(2,3)] in simp_all)

lemma record_request_off: "\<not> status_handler_enabled rd \<Longrightarrow> record_request u status rd = Inr rd"
  by (simp add: record_request_def)

lemma call_handler_enabled:
  "call_handler S request rd w = Some (Inr (r, rd'), w') \<Longrightarrow> status_handler_enabled rd' = status_handler_enabled rd"
  by (auto simp: call_handler_def get_handler_def table_index_def and_then_Inr split: option.splits)

lemma matches_calling:
  assumes "matches as es ps sv" "process_ok ps" "doing t (Calling i) ps"
  obtains bytes where "i < length (sessions sv)" "bytes \<noteq> []" "length bytes \<le> max_length" "pending (sessions sv ! i) = Reading"
    "begin_read (length bytes) (receive bytes (sessions sv ! i)) = (sessions (shared ps) ! i, True)"
    "taken i as = received i es @ bytes"
proof -
  have i: "i < length (sessions (shared ps))" using doing_busy(1) [OF assms(3)] assms(2) by (simp add: process_ok_def)
  have "stage i ps = Some (Calling i)" by (rule stage_doing [OF assms(2,3)]) simp
  from matches_stage [OF assms(1) i this] i assms(1) that show thesis by (auto simp: matches_def)
qed

text \<open>What \<open>handle_read\<close> does of the request that is called.\<close>

lemma calling_read:
  assumes "matches as es ps sv" "begin_read n (receive bytes (sessions sv ! i)) = (sessions (shared ps) ! i, True)"
  shows "handle_read S False n (receive bytes (sessions sv ! i)) (dispatcher sv) (world sv) =
    map_option (\<lambda>(result, w'). (and_then result (\<lambda>(r, rd'). and_then (record_request (uri_of (request_read S i ps)) (code_of r) rd')
        (\<lambda>rd''. Inr (finish_read r (sessions (shared ps) ! i), rd''))), w'))
      (call_handler S (request_read S i ps) (dispatcher (shared ps)) (world (shared ps)))"
  using assms by (simp add: handle_read_in_parts Let_def request_read_def matches_def)

lemma matches_called:
  assumes "matches as es ps sv" "process_ok ps" "doing t (Calling i) ps" "\<not> status_handler_enabled (dispatcher (shared ps))"
    and "call_handler S (request_read S i ps) (dispatcher (shared ps)) (world (shared ps)) = Some (Inr (r, rd), w)"
  shows "\<exists>bytes sv'. step S (Running sv) (Read_done i bytes) (Running sv') \<and>
    matches (as @ [Call t]) (es @ [Read_done i bytes]) (called t i (request_read S i ps) r rd w ps) sv'"
proof -
  let ?ps = "called t i (request_read S i ps) r rd w ps" and ?s = "sessions (shared ps) ! i"
  obtain bytes where b: "i < length (sessions sv)" "bytes \<noteq> []" "length bytes \<le> max_length" "pending (sessions sv ! i) = Reading"
    "begin_read (length bytes) (receive bytes (sessions sv ! i)) = (?s, True)" "taken i as = received i es @ bytes"
    by (rule matches_calling [OF assms(1-3)])
  have "\<not> status_handler_enabled rd" using call_handler_enabled [OF assms(5)] assms(4) by simp
  then have "handle_read S False (length bytes) (receive bytes (sessions sv ! i)) (dispatcher sv) (world sv) =
      Some (Inr (finish_read r ?s, rd), w)"
    by (simp add: calling_read [OF assms(1) b(5)] assms(5) record_request_off)
  note step = step.read [OF b(1,4,2,3) this]
  have t: "t < length (workers ps)" "workers ps ! t = Some (Calling i)" using assms(3) by (simp_all add: doing_def)
  have w: "workers ?ps = (workers ps)[t := Some (Recording i (request_read S i ps) r)]" by (simp add: called_def)
  have "stage i ?ps = Some (Recording i (request_read S i ps) r)"
    by (rule stage_doing [OF process_ok_called [OF assms(2,3)], where t = t]) (use t in \<open>simp_all add: doing_def called_def\<close>)
  then have "session_matches (stage i ?ps) (taken i (as @ [Call t])) (received i (es @ [Read_done i bytes])) ?s (finish_read r ?s)"
    using b(6) by simp
  moreover have "stage j ?ps = stage j ps" if "j \<noteq> i" for j
    by (rule stage_other [OF w]) (use t that in simp_all)
  moreover have "i < length (sessions (shared ps))" using b(1) assms(1) by (simp add: matches_def)
  moreover have "shared ?ps = put_session i ?s ((shared ps)\<lparr>dispatcher := rd, world := w\<rparr>)" by (simp add: called_def)
  ultimately have "matches (as @ [Call t]) (es @ [Read_done i bytes]) ?ps
      (put_session i (finish_read r ?s) (sv\<lparr>dispatcher := rd, world := w\<rparr>))"
    by (intro matches_session [OF assms(1), where i = i and s = ?s and s' = "finish_read r ?s" and rd = rd and w = w])
      (assumption | simp)+
  with step show ?thesis by blast
qed

lemma matches_finished:
  assumes "matches as es ps sv" "process_ok ps" "doing t (Recording i request r) ps"
  shows "matches (as @ [Finish t]) (es @ []) (finished t i (finish_read r (sessions (shared ps) ! i)) (dispatcher (shared ps)) ps) sv"
proof (rule matches_session [OF assms(1), where i = i])
  let ?s = "finish_read r (sessions (shared ps) ! i)"
  let ?ps = "finished t i ?s (dispatcher (shared ps)) ps"
  have t: "t < length (workers ps)" "workers ps ! t = Some (Recording i request r)" using assms(3) by (simp_all add: doing_def)
  have w: "workers ?ps = (workers ps)[t := None]" by (simp add: finished_def)
  show "stage j ?ps = stage j ps" if "j \<noteq> i" for j
    by (rule stage_other [OF w]) (use t that in simp_all)
  show i: "i < length (sessions (shared ps))" using doing_busy(2) [OF assms(3)] assms(2) by (simp add: process_ok_def)
  have "stage i ps = Some (Recording i request r)" by (rule stage_doing [OF assms(2,3)]) simp
  from matches_stage [OF assms(1) i this] have "sessions sv ! i = ?s" "taken i as = received i es" by simp_all
  moreover have "busy i ?ps \<longleftrightarrow> task_on i None"
    using one_thread [OF assms(2) _ t(1), of _ i] t(2) by (intro busy_update [OF t(1) w]) auto
  then have "stage i ?ps = None" by (simp add: stage_free)
  ultimately show "session_matches (stage i ?ps) (taken i (as @ [Finish t])) (received i (es @ [])) ?s (sessions sv ! i)"
    by simp
  show "shared ?ps = put_session i ?s ((shared ps)\<lparr>dispatcher := dispatcher (shared ps), world := world (shared ps)\<rparr>)"
    by (simp add: finished_def)
  show "sv = put_session i (sessions sv ! i) (sv\<lparr>dispatcher := dispatcher (shared ps), world := world (shared ps)\<rparr>)"
    unfolding unchanged [OF assms(1)] by simp
qed simp_all

text \<open>Every action is matched by at most one step, and an exception by the end of the program.\<close>

lemma begin_read_rest:
  "begin_read n s = (s', False) \<Longrightarrow> handle_read S False n s rd w = Some (Inr (s', rd), w)"
  by (simp add: handle_read_in_parts)

lemma act_matches:
  assumes "act S (Live ps) a (Live ps')" "matches as es ps sv" "process_ok ps" "\<not> status_handler_enabled (dispatcher (shared ps))"
  shows "\<exists>es' sv'. run S (Running sv) es' (Running sv') \<and> matches (as @ [a]) (es @ es') ps' sv' \<and>
    \<not> status_handler_enabled (dispatcher (shared ps'))"
proof -
  have ran: "\<exists>es' sv'. run S (Running sv) es' (Running sv') \<and> matches (as @ [a]) (es @ es') ps' sv' \<and>
      \<not> status_handler_enabled (dispatcher (shared ps'))"
    if "a = Begin t event" "ps' = ran i io s ps" "Operation i io \<in> set (operations ps)" "\<And>j. j \<noteq> i \<Longrightarrow> received j [event] = []"
      "step S (Running sv) event (Running (put_session i s sv))" for t event i io s
  proof (intro exI conjI)
    show "run S (Running sv) [event] (Running (put_session i s sv))" by (rule run_one [OF that(5)])
    show "matches (as @ [a]) (es @ [event]) ps' (put_session i s sv)"
      unfolding that(1,2) by (rule matches_ran [OF assms(2,3) that(3,4)])
    show "\<not> status_handler_enabled (dispatcher (shared ps'))" using assms(4) by (simp add: that(2) ran_def)
  qed
  note free = matches_free [OF assms(2,3)]
  from assms(1) show ?thesis
  proof (cases rule: act.cases)
    case (accept t error)
    have "run S (Running sv) [Accept_done error] (Running (handle_accept error sv))" by (rule run_one [OF step.accept])
    with matches_accepted [OF assms(2,3), of t error] accept assms(4) show ?thesis
      by (intro exI [of _ "[Accept_done error]"] exI [of _ "handle_accept error sv"]) (simp add: connection_made_def)
  next
    case (read t i bytes s)
    note sv = free [OF read(4)]
    have "handle_read S False (length bytes) (receive bytes (sessions sv ! i)) (dispatcher sv) (world sv) =
        Some (Inr (s, dispatcher sv), world sv)"
      using begin_read_rest [OF read(7)] sv(2) by simp
    from step.read [OF sv(1,3) read(5,6) this] read show ?thesis by (intro ran [of t _ i Reading s]) simp_all
  next
    case (read_request t i bytes s)
    from matches_start_call [OF assms(2,3) read_request(4,3,5,6,7)] read_request assms(4) show ?thesis
      by (intro exI [of _ "[]"] exI [of _ sv]) (simp add: run_simps start_call_def)
  next
    case (read_fails t i)
    note sv = free [OF read_fails(4)]
    have "handle_read S True 0 (sessions sv ! i) (dispatcher sv) (world sv) =
        Some (Inr ((sessions sv ! i)\<lparr>pending := Deleted\<rparr>, dispatcher sv), world sv)"
      by (simp add: handle_read_def)
    from step.read_fails [OF sv(1,3) this] read_fails sv(2) show ?thesis
      by (intro ran [of t "Read_failed i" i Reading]) simp_all
  next
    case (write_completes t i)
    note sv = free [OF write_completes(4)]
    from step.write_completes [OF sv(1,3)] write_completes sv(2) show ?thesis by (intro ran [of t "Write_done i" i Writing]) simp_all
  next
    case (write_fails t i)
    note sv = free [OF write_fails(4)]
    from step.write_fails [OF sv(1,3)] write_fails sv(2) show ?thesis by (intro ran [of t "Write_failed i" i Writing]) simp_all
  next
    case (write_last_completes t i)
    note sv = free [OF write_last_completes(4)]
    from step.write_last_completes [OF sv(1,3)] write_last_completes sv(2) show ?thesis
      by (intro ran [of t "Write_done i" i Writing_last]) simp_all
  next
    case (write_last_fails t i)
    note sv = free [OF write_last_fails(4)]
    from step.write_last_fails [OF sv(1,3)] write_last_fails sv(2) show ?thesis
      by (intro ran [of t "Write_failed i" i Writing_last]) simp_all
  next
    case (call t i r rd w)
    from matches_called [OF assms(2,3) call(3) assms(4) call(4)] obtain bytes sv' where
      "step S (Running sv) (Read_done i bytes) (Running sv')" "matches (as @ [Call t]) (es @ [Read_done i bytes]) ps' sv'"
      unfolding call(2) by blast
    moreover have "\<not> status_handler_enabled (dispatcher (shared ps'))"
      using call_handler_enabled [OF call(4)] assms(4) by (simp add: call(2) called_def)
    ultimately show ?thesis unfolding call(1) by (blast intro: run_one)
  next
    case (finish t i request r rd)
    with assms(4) have rd: "rd = dispatcher (shared ps)" by (simp add: record_request_off)
    from matches_finished [OF assms(2,3) finish(3)] finish rd assms(4) show ?thesis
      by (intro exI [of _ "[]"] exI [of _ sv]) (simp add: run_simps finished_def)
  qed simp_all
qed

lemma act_crash:
  assumes "act S (Live ps) a (Crashed e)" "matches as es ps sv" "process_ok ps" "\<not> status_handler_enabled (dispatcher (shared ps))"
  shows "\<exists>event. step S (Running sv) event (Terminated e)"
  using assms(1)
proof (cases rule: act.cases)
  case (call_raises t i w)
  obtain bytes where b: "i < length (sessions sv)" "bytes \<noteq> []" "length bytes \<le> max_length" "pending (sessions sv ! i) = Reading"
    "begin_read (length bytes) (receive bytes (sessions sv ! i)) = (sessions (shared ps) ! i, True)"
    by (rule matches_calling [OF assms(2,3) call_raises(2)])
  have "handle_read S False (length bytes) (receive bytes (sessions sv ! i)) (dispatcher sv) (world sv) = Some (Inl e, w)"
    by (simp add: calling_read [OF assms(2) b(5)] call_raises(3))
  from step.read_raises [OF b(1,4,2,3) this] show ?thesis ..
next
  case (finish_raises t i request r)
  with assms(4) show ?thesis by (simp add: record_request_off)
qed simp_all

lemma acts_snoc: "acts S state (as @ [a]) state' \<longleftrightarrow> (\<exists>t. acts S state as t \<and> act S t a state')"
  by (induction as arbitrary: state) (auto simp: acts_simps)

lemma acts_append: "acts S state as state' \<Longrightarrow> acts S state' bs state'' \<Longrightarrow> acts S state (as @ bs) state''"
  by (induction rule: acts.induct) (auto intro: acts.intros)

lemma live_before: "act S state a state' \<Longrightarrow> \<exists>ps. state = Live ps"
  by (auto elim: act.cases)

lemma acts_match:
  assumes "sessions sv0 = []" "accepting sv0 = new_session" "\<not> status_handler_enabled (dispatcher sv0)"
    and "acts S (Live (new_process sv0)) as (Live ps)"
  shows "\<exists>es sv. run S (Running sv0) es (Running sv) \<and> matches as es ps sv \<and> process_ok ps \<and>
    \<not> status_handler_enabled (dispatcher (shared ps))"
  using assms(4)
proof (induction as arbitrary: ps rule: rev_induct)
  case Nil
  then have "ps = new_process sv0" by (simp add: acts_simps)
  then show ?case
    using matches_new [OF assms(1)] process_ok_new [OF assms(1)] assms(3)
    by (intro exI [of _ "[]"] exI [of _ sv0]) (simp add: run_simps new_process_def)
next
  case (snoc a as)
  then obtain state where state: "acts S (Live (new_process sv0)) as state" "act S state a (Live ps)"
    by (auto simp: acts_snoc)
  from live_before [OF state(2)] obtain ps1 where live: "state = Live ps1" by blast
  from snoc.IH [OF state(1) [unfolded live]] obtain es sv where ih: "run S (Running sv0) es (Running sv)" "matches as es ps1 sv"
    "process_ok ps1" "\<not> status_handler_enabled (dispatcher (shared ps1))" by blast
  from act_matches [OF state(2) [unfolded live] ih(2-4)] obtain es' sv' where
    "run S (Running sv) es' (Running sv')" "matches (as @ [a]) (es @ es') ps sv'"
    "\<not> status_handler_enabled (dispatcher (shared ps))" by blast
  moreover have "process_state_ok (Live ps)"
    by (rule strand.inv_run [OF _ snoc.prems]) (simp add: process_ok_new assms(1,2), simp add: new_process_def assms(2))
  ultimately show ?case using run_append [OF ih(1)] by auto
qed

end
