(* ===== verification/ThreadProperties.thy ===== *)
theory ThreadProperties
  imports ThreadFacts ProxySite
begin

text \<open>
  The properties of the process with its pool of threads: what the threads cannot get in each other's way with, when they are as
  good as one, and the two ways in which they are not safe.
\<close>

subsection \<open>Clients that connect and send a request each\<close>

definition connect_all :: "nat \<Rightarrow> action list" where
  "connect_all n = replicate n (Begin 0 (Accept_done False))"

definition send_all :: "(nat \<Rightarrow> text_request) \<Rightarrow> nat \<Rightarrow> action list" where
  "send_all ts n = map (\<lambda>j. Begin j (Read_done j (print_request (ts j)))) [0..<n]"

lemma connected:
  assumes "sessions sv = []" "accepting sv = new_session"
  shows "\<exists>ps. acts S (Live (new_process sv)) (connect_all n) (Live ps) \<and> workers ps = replicate THREAD_POOL_SIZE None \<and>
    sessions (shared ps) = replicate n (start new_session) \<and> accepting (shared ps) = new_session \<and>
    dispatcher (shared ps) = dispatcher sv \<and> world (shared ps) = world sv \<and>
    Accept_operation \<in> set (operations ps) \<and> (\<forall>j<n. Operation j Reading \<in> set (operations ps))"
proof (induction n)
  case 0
  from assms show ?case
    by (intro exI [of _ "new_process sv"]) (simp add: acts_simps connect_all_def new_process_def)
next
  case (Suc n)
  then obtain ps where ps: "acts S (Live (new_process sv)) (connect_all n) (Live ps)"
    "workers ps = replicate THREAD_POOL_SIZE None" "sessions (shared ps) = replicate n (start new_session)"
    "accepting (shared ps) = new_session" "dispatcher (shared ps) = dispatcher sv" "world (shared ps) = world sv"
    "Accept_operation \<in> set (operations ps)" "\<forall>j<n. Operation j Reading \<in> set (operations ps)" by blast
  have "act S (Live ps) (Begin 0 (Accept_done False)) (Live (connection_made False ps))"
    by (rule act.accept) (simp_all add: idle_thread_def ps(2,7) THREAD_POOL_SIZE_def)
  with ps(1) have "acts S (Live (new_process sv)) (connect_all (Suc n)) (Live (connection_made False ps))"
    unfolding connect_all_def replicate_Suc replicate_append_same [symmetric] acts_snoc by blast
  moreover have "Operation j Reading \<in> set (operations (connection_made False ps))" if "j < Suc n" for j
    using that ps(3,8) by (cases "j = n") (simp_all add: connection_made_def)
  ultimately show ?case
    by (intro exI [of _ "connection_made False ps"])
      (simp add: connection_made_def ps replicate_append_same)
qed

lemma request_taken:
  assumes "printable t" "parser_builder s = (new_request_parser, new_request_builder)" "pending s = Reading"
  shows "\<exists>s'. begin_read (length (print_request t)) (receive (print_request t) s) = (s', True) \<and>
    rq_build_request junk (snd (parser_builder s')) = request_of t"
proof -
  obtain p b where "rq_parse (new_request_parser, new_request_builder) (print_request t) = (Good, (p, b), [])"
    "rq_build_request junk b = request_of t"
    using print_request_parsed [OF assms(1), of junk] by blast
  with assms(2) show ?thesis by (simp add: begin_read_def)
qed

lemma sent_all:
  assumes "workers ps = replicate THREAD_POOL_SIZE None" "sessions (shared ps) = replicate n (start new_session)"
    and "\<forall>j<n. Operation j Reading \<in> set (operations ps)" "n \<le> THREAD_POOL_SIZE"
    and "\<forall>j<n. printable (ts j) \<and> length (print_request (ts j)) \<le> max_length"
  shows "m \<le> n \<Longrightarrow> \<exists>ps'. acts S (Live ps) (send_all ts m) (Live ps') \<and>
    workers ps' = map (\<lambda>j. if j < m then Some (Calling j) else None) [0..<THREAD_POOL_SIZE] \<and>
    length (sessions (shared ps')) = n \<and>
    dispatcher (shared ps') = dispatcher (shared ps) \<and> world (shared ps') = world (shared ps) \<and>
    (\<forall>j<m. request_read S j ps' = request_of (ts j)) \<and>
    (\<forall>j<n. m \<le> j \<longrightarrow> sessions (shared ps') ! j = start new_session \<and> Operation j Reading \<in> set (operations ps'))"
proof (induction m)
  case 0
  have "map (\<lambda>j. None) [0..<THREAD_POOL_SIZE] = replicate THREAD_POOL_SIZE (None :: task option)"
    by (simp add: map_replicate_const)
  with assms(1-3) show ?case by (intro exI [of _ ps]) (simp add: acts_simps send_all_def)
next
  case (Suc m)
  then obtain ps' where ps': "acts S (Live ps) (send_all ts m) (Live ps')"
    "workers ps' = map (\<lambda>j. if j < m then Some (Calling j) else None) [0..<THREAD_POOL_SIZE]"
    "length (sessions (shared ps')) = n" "dispatcher (shared ps') = dispatcher (shared ps)"
    "world (shared ps') = world (shared ps)" "\<forall>j<m. request_read S j ps' = request_of (ts j)"
    "\<forall>j<n. m \<le> j \<longrightarrow> sessions (shared ps') ! j = start new_session \<and> Operation j Reading \<in> set (operations ps')"
    by auto
  let ?text = "print_request (ts m)"
  have m: "m < n" "m < THREAD_POOL_SIZE" using Suc.prems assms(4) by simp_all
  have t: "printable (ts m)" "length ?text \<le> max_length" using assms(5) m by simp_all
  have s: "sessions (shared ps') ! m = start new_session" "Operation m Reading \<in> set (operations ps')" using ps'(7) m by simp_all
  have fresh: "parser_builder (start new_session) = (new_request_parser, new_request_builder)" "pending (start new_session) = Reading"
    by (simp_all add: start_def async_read_some_def clear_buffer_def new_session_def)
  obtain s' where s': "begin_read (length ?text) (receive ?text (start new_session)) = (s', True)"
    "rq_build_request (uninitialised_method S (world (shared ps'))) (snd (parser_builder s')) = request_of (ts m)"
    using request_taken [OF t(1) fresh] by blast
  have "?text \<noteq> []" by (simp add: print_request_def)
  then have "act S (Live ps') (Begin m (Read_done m ?text)) (Live (start_call m m s' ps'))"
    using m t(2) s s'(1) ps'(2) by (intro act.read_request) (simp_all add: idle_thread_def)
  with ps'(1) have run: "acts S (Live ps) (send_all ts (Suc m)) (Live (start_call m m s' ps'))"
    by (auto simp: send_all_def acts_snoc)
  have reads: "request_read S j (start_call m m s' ps') = request_of (ts j)" if "j < Suc m" for j
  proof (cases "j = m")
    case True
    with s'(2) m ps'(3) show ?thesis by (simp add: request_read_def start_call_def)
  next
    case False
    with that ps'(6) show ?thesis by (simp add: request_read_def start_call_def)
  qed
  have threads: "workers (start_call m m s' ps') = map (\<lambda>j. if j < Suc m then Some (Calling j) else None) [0..<THREAD_POOL_SIZE]"
    by (rule nth_equalityI) (auto simp: start_call_def ps'(2) nth_list_update less_Suc_eq)
  show ?case
    by (intro exI [of _ "start_call m m s' ps'"] conjI run threads allI impI reads)
      (use ps' in \<open>auto simp: start_call_def\<close>)
qed

lemma served_by_threads:
  assumes "sessions sv = []" "accepting sv = new_session" "n \<le> THREAD_POOL_SIZE"
    and "\<forall>j<n. printable (ts j) \<and> length (print_request (ts j)) \<le> max_length"
  obtains ps where "acts S (Live (new_process sv)) (connect_all n @ send_all ts n) (Live ps)"
    "workers ps = map (\<lambda>j. if j < n then Some (Calling j) else None) [0..<THREAD_POOL_SIZE]"
    "dispatcher (shared ps) = dispatcher sv" "world (shared ps) = world sv"
    "\<And>j. j < n \<Longrightarrow> request_read S j ps = request_of (ts j)"
proof -
  obtain ps where ps: "acts S (Live (new_process sv)) (connect_all n) (Live ps)" "workers ps = replicate THREAD_POOL_SIZE None"
    "sessions (shared ps) = replicate n (start new_session)" "dispatcher (shared ps) = dispatcher sv"
    "world (shared ps) = world sv" "\<forall>j<n. Operation j Reading \<in> set (operations ps)"
    using connected [OF assms(1,2)] by blast
  obtain ps' where ps': "acts S (Live ps) (send_all ts n) (Live ps')"
    "workers ps' = map (\<lambda>j. if j < n then Some (Calling j) else None) [0..<THREAD_POOL_SIZE]"
    "dispatcher (shared ps') = dispatcher (shared ps)" "world (shared ps') = world (shared ps)"
    "\<forall>j<n. request_read S j ps' = request_of (ts j)"
    using sent_all [OF ps(2,3,6) assms(3,4) order_refl] by blast
  show thesis
    by (rule that [OF acts_append [OF ps(1) ps'(1)] ps'(2)]) (use ps ps' in simp_all)
qed

subsection \<open>What threads do not share\<close>

fun session_of :: "task \<Rightarrow> nat" where
  "session_of (Calling i) = i"
| "session_of (Recording i request r) = i"

lemma task_on_session: "task_on i (Some task) \<longleftrightarrow> session_of task = i"
  by (cases task) auto

text \<open>Two clients of a site of static files, each in the middle of a call.\<close>

abbreviation static_server :: "(Blog list, unit) server" where
  "static_server \<equiv> new_server static_dispatcher ()"

lemma get_static_length: "length (print_request get_static) \<le> max_length"
  by (simp add: max_length_def print_request_def head_of_request_def request_head_def header_line_def dec_values)

lemma two_calls:
  obtains ps where "acts example_setting (Live (new_process static_server)) (connect_all 2 @ send_all (\<lambda>j. get_static) 2) (Live ps)"
    "doing 0 (Calling 0) ps" "doing 1 (Calling 1) ps"
proof -
  have two: "2 \<le> THREAD_POOL_SIZE" by (simp add: THREAD_POOL_SIZE_def)
  have ts: "\<forall>j<2 :: nat. printable get_static \<and> length (print_request get_static) \<le> max_length"
    using get_static_ok(1) get_static_length by blast
  have empty: "sessions static_server = []" "accepting static_server = new_session"
    by (simp_all add: new_server_def start_accept_def)
  obtain ps where ps: "acts example_setting (Live (new_process static_server)) (connect_all 2 @ send_all (\<lambda>j. get_static) 2) (Live ps)"
    "workers ps = map (\<lambda>j. if j < 2 then Some (Calling j) else None) [0..<THREAD_POOL_SIZE]"
    "dispatcher (shared ps) = dispatcher static_server" "world (shared ps) = world static_server"
    "\<And>j. j < 2 \<Longrightarrow> request_read example_setting j ps = request_of get_static"
    by (rule served_by_threads [OF empty two ts, of example_setting]) blast
  from ps(1) show thesis
    by (rule that) (simp_all add: doing_def ps(2) THREAD_POOL_SIZE_def)
qed

text \<open>
  C4. Each connection is a strand of its own, although nothing locks it: at any time, whatever the threads do in which order, two
  threads never run handlers of the same session; while a thread runs one, no operation of that session is under way; and
  otherwise there is at most one.
\<close>

theorem session_strand:
  assumes "main_program (iteration_order S) connect_db fs listen argv w = Inr (Serve port sv0)"
    and "acts S (Live (new_process sv0)) actions (Live ps)" "doing t task ps"
  shows "\<not> (t \<noteq> u \<and> doing u task' ps \<and> session_of task' = session_of task) \<and>
    filter (is_on (session_of task)) (operations ps) = [] \<and> length (filter (is_on i) (operations ps)) \<le> 1"
proof -
  obtain rd where sv0: "sv0 = new_server rd w" using main_program_Serve [OF assms(1)] by metis
  then have "process_state_ok (Live (new_process sv0))"
    by (simp add: process_ok_new new_server_def start_accept_def) (simp add: new_process_def)
  from strand.inv_run [OF this assms(2)] have ok: "process_ok ps" by simp
  have here: "t < length (workers ps)" "task_on (session_of task) (workers ps ! t)"
    using assms(3) by (simp_all add: doing_def task_on_session)
  have "\<not> (t \<noteq> u \<and> doing u task' ps \<and> session_of task' = session_of task)"
    using one_thread [OF ok here(1) _ here(2), of u] by (auto simp: doing_def task_on_session)
  moreover have "busy (session_of task) ps" using here by (auto simp: busy_def)
  then have "filter (is_on (session_of task)) (operations ps) = []" using ok by (simp add: process_ok_def)
  moreover have "length (started i io) \<le> 1" for io by (cases io) simp_all
  then have "length (filter (is_on i) (operations ps)) \<le> 1"
    using ok by (simp add: process_ok_def)
  ultimately show ?thesis by blast
qed

theorem session_strand_witness:
  "\<exists>ps. acts example_setting (Live (new_process static_server)) (connect_all 2 @ send_all (\<lambda>j. get_static) 2) (Live ps) \<and>
    \<not> (0 \<noteq> (1 :: nat) \<and> doing 1 (Calling 0) ps \<and> session_of (Calling 0) = session_of (Calling 0)) \<and>
    filter (is_on (session_of (Calling 0))) (operations ps) = [] \<and> length (filter (is_on 1) (operations ps)) \<le> 1"
proof (rule two_calls)
  fix ps
  assume run: "acts example_setting (Live (new_process static_server)) (connect_all 2 @ send_all (\<lambda>j. get_static) 2) (Live ps)"
    and busy: "doing 0 (Calling 0) ps"
  from session_strand [OF static_main run busy, of 1 "Calling 0" 1] run show ?thesis by blast
qed

subsection \<open>Without a status handler\<close>

lemma no_status_main:
  assumes "iteration (iteration_order S)" "main_program (iteration_order S) connect_db fs listen argv w = Inr (Serve port sv0)"
    and "parse_file fs (argv ! 1) new_config = Inr (accepted, cfg)" "status_locations cfg = []"
  shows "sessions sv0 = []" "accepting sv0 = new_session" "\<not> status_handler_enabled (dispatcher sv0)"
    "sv0 = new_server (dispatcher sv0) (world sv0)" "running_ok cfg (Running sv0)"
proof -
  obtain rd where rd: "create_handler_mapping (iteration_order S) connect_db cfg = Inr rd" "sv0 = new_server rd w"
    using main_program_Serve [OF assms(2)] assms(3) by (metis Pair_inject sum.inject(2))
  note table = mapping_table [OF assms(1) parse_file_ok [OF assms(3)] rd(1)]
  show "sessions sv0 = []" "accepting sv0 = new_session" "\<not> status_handler_enabled (dispatcher sv0)"
    "sv0 = new_server (dispatcher sv0) (world sv0)"
    using table(3) assms(4) by (simp_all add: rd(2) new_server_def start_accept_def)
  show "running_ok cfg (Running sv0)"
    using dispatcher_ok_mapping [OF assms(1) parse_file_ok [OF assms(3)] rd(1)] table(1)
    by (simp add: rd(2) server_ok_def new_server_def start_accept_def)
qed



text \<open>Nor do the threads end the program when the server that handles one event at a time does not.\<close>

theorem threads_crash:
  assumes "iteration (iteration_order S)" "main_program (iteration_order S) connect_db fs listen argv w = Inr (Serve port sv0)"
    and "parse_file fs (argv ! 1) new_config = Inr (accepted, cfg)" "status_locations cfg = []"
    and "acts S (Live (new_process sv0)) actions (Crashed e)"
  shows "\<exists>events. run S (Running sv0) events (Terminated e)"
proof -
  note start = no_status_main [OF assms(1-4)]
  from assms(5) show ?thesis
  proof (cases actions rule: rev_cases)
    case Nil
    with assms(5) show ?thesis by (simp add: acts_simps)
  next
    case (snoc as a)
    then obtain state where state: "acts S (Live (new_process sv0)) as state" "act S state a (Crashed e)"
      using assms(5) by (auto simp: acts_snoc)
    from live_before [OF state(2)] obtain ps where live: "state = Live ps" by blast
    from acts_match [OF start(1-3) state(1) [unfolded live]] obtain events sv where
      run: "run S (Running sv0) events (Running sv)" and matches: "matches as events ps sv" "process_ok ps"
      "\<not> status_handler_enabled (dispatcher (shared ps))" by blast
    from act_crash [OF state(2) [unfolded live] matches] obtain event where "step S (Running sv) event (Terminated e)" ..
    from run_append [OF run run_one [OF this]] show ?thesis by blast
  qed
qed

lemma no_blog_object:
  assumes "iteration it" "config_ok cfg" "create_handler_mapping it connect_db cfg = Inr rd" "blog_ips cfg = []"
  shows "\<not> keeps_form (map_of (table rd) k)"
proof (cases "\<exists>ty. k \<in> set (locations_of cfg ty)")
  case True
  then obtain ty where "k \<in> set (locations_of cfg ty)" ..
  from mapping_table(4) [OF assms(1-3) this] obtain ty' h where h: "k \<in> set (locations_of cfg ty')"
    "init_handler it connect_db cfg ty' k = Inr h" "map_of (table rd) k = Some (Some h)" unfolding entered_def by blast
  have "handler_type_name h = ty'" by (rule init_handler_type [OF located_type [OF h(1)] h(2)])
  moreover have "ty' \<noteq> ''BlogHandler''" using h(1) assms(4) by auto
  ultimately show ?thesis using h(3) by (cases h) auto
next
  case False
  with mapping_table(5) [OF assms(1-3)] show ?thesis by simp
qed

lemma same_entry_keeps: "same_entry e e' \<Longrightarrow> keeps_form e' \<longleftrightarrow> keeps_form e"
  by (auto simp: same_entry_def)

text \<open>
  C10. With no status and no blog location there are no data races: whatever the threads are in the middle of, none of them is
  about to write an object that another one uses; the lookup never adds to the table.
\<close>

theorem threads_race_free:
  assumes "iteration (iteration_order S)" "main_program (iteration_order S) connect_db fs listen argv w = Inr (Serve port sv0)"
    and "parse_file fs (argv ! 1) new_config = Inr (accepted, cfg)" "status_locations cfg = []"
    and "blog_ips cfg = []" "acts S (Live (new_process sv0)) actions (Live ps)"
  shows "\<not> data_race S ps"
proof -
  note start = no_status_main [OF assms(1-4)]
  obtain events sv where run: "run S (Running sv0) events (Running sv)" "matches actions events ps sv"
    and off: "\<not> status_handler_enabled (dispatcher (shared ps))"
    using acts_match [OF start(1-3) assms(6)] by blast
  have "running_ok cfg (Running sv)" using running.inv_run [OF conjI [OF assms(1) start(5)] run(1)] by simp
  then have ok: "dispatcher_ok (dispatcher (shared ps))" using run(2) by (simp add: server_ok_def matches_def)
  obtain rd where rd: "create_handler_mapping (iteration_order S) connect_db cfg = Inr rd" "sv0 = new_server rd w"
    using main_program_Serve [OF assms(2)] assms(3) by (metis Pair_inject sum.inject(2))
  note parsed = parse_file_ok [OF assms(3)]
  obtain history where "explained S rd w events history sv"
    using run_explained run(1) rd(2) by metis
  then have served: "serve_all (iteration_order S) (handlers_env S) (served_requests history) rd w =
      Some (Inr (served_answers history, dispatcher sv), world sv)"
    by (simp add: explained_def)
  have no_blog: "\<not> keeps_form (map_of (table (dispatcher (shared ps))) k)" for k
    using after_requests(4) [OF assms(1) parsed rd(1) served, of k] no_blog_object [OF assms(1) parsed rd(1) assms(5), of k]
      same_entry_keeps run(2) by (metis matches_def)
  have reading: "list_all (\<lambda>(x, written). \<not> written) (accesses S ps task)" for task
  proof (cases task)
    case (Calling i)
    show ?thesis
    proof (cases "handler_key (iteration_order S) (config_of (dispatcher (shared ps))) (uri_of (request_read S i ps))")
      case (Some k)
      have "located (config_of (dispatcher (shared ps))) k"
        using handler_key_located(1) [OF assms(1) _ Some] ok by (simp add: dispatcher_ok_def)
      with ok have "map_of (table (dispatcher (shared ps))) k \<noteq> None" by (auto simp: dispatcher_ok_def)
      with Some Calling show ?thesis by (simp add: table_access_def no_blog)
    qed (simp add: Calling)
  qed (use off in simp)
  show ?thesis
  proof
    assume "data_race S ps"
    then obtain task task' where "conflict (accesses S ps task) (accesses S ps task')" by (auto simp: data_race_def)
    with reading [of task] reading [of task'] show False
      unfolding conflict_def list_ex_iff list_all_iff by fastforce
  qed
qed

theorem threads_race_free_witness:
  "\<exists>ps. acts example_setting (Live (new_process static_server)) (connect_all 2 @ send_all (\<lambda>j. get_static) 2) (Live ps) \<and>
    doing 0 (Calling 0) ps \<and> doing 1 (Calling 1) ps \<and> \<not> data_race example_setting ps"
proof (rule two_calls)
  fix ps
  assume run: "acts example_setting (Live (new_process static_server)) (connect_all 2 @ send_all (\<lambda>j. get_static) 2) (Live ps)"
    and busy: "doing 0 (Calling 0) ps" "doing 1 (Calling 1) ps"
  from threads_race_free [OF _ static_main static_config_parsed _ _ run] run busy show ?thesis
    by (auto simp: iteration_id)
qed

subsection \<open>With a status handler\<close>


text \<open>
  C11. Two requests at one blog location race, whatever they are and even without a status handler: each call stores its form in
  the one handler object, so two clients that send a request each are enough.
\<close>

theorem blog_race:
  assumes "main_program (iteration_order S) connect_db fs listen argv w = Inr (Serve port sv0)"
    and "map_of (table (dispatcher sv0)) k = Some (Some (BlogHandler h))"
    and "handler_key (iteration_order S) (config_of (dispatcher sv0)) (tr_uri t0) = Some k"
    and "handler_key (iteration_order S) (config_of (dispatcher sv0)) (tr_uri t1) = Some k"
    and "printable t0" "length (print_request t0) \<le> max_length" "printable t1" "length (print_request t1) \<le> max_length"
  shows "\<exists>ps. acts S (Live (new_process sv0)) (connect_all 2 @ send_all (\<lambda>j. if j = 0 then t0 else t1) 2) (Live ps) \<and>
    data_race S ps"
proof -
  obtain rd where sv0: "sv0 = new_server rd w" using main_program_Serve [OF assms(1)] by metis
  let ?ts = "\<lambda>j :: nat. if j = 0 then t0 else t1"
  have empty: "sessions sv0 = []" "accepting sv0 = new_session" by (simp_all add: sv0 new_server_def start_accept_def)
  have ts: "\<forall>j<2. printable (?ts j) \<and> length (print_request (?ts j)) \<le> max_length" and two: "2 \<le> THREAD_POOL_SIZE"
    using assms(5-8) by (simp_all add: THREAD_POOL_SIZE_def)
  obtain ps where ps: "acts S (Live (new_process sv0)) (connect_all 2 @ send_all ?ts 2) (Live ps)"
    "workers ps = map (\<lambda>j. if j < 2 then Some (Calling j) else None) [0..<THREAD_POOL_SIZE]"
    "dispatcher (shared ps) = dispatcher sv0" "world (shared ps) = world sv0"
    "\<And>j. j < 2 \<Longrightarrow> request_read S j ps = request_of (?ts j)"
    by (rule served_by_threads [OF empty two ts, of S]) blast
  have "uri_of (request_read S 0 ps) = tr_uri t0" "uri_of (request_read S 1 ps) = tr_uri t1"
    using ps(5) [of 0] ps(5) [of 1] by (simp_all add: request_of_def)
  then have "conflict (accesses S ps (Calling 0)) (accesses S ps (Calling 1))"
    using assms(2-4) by (simp add: conflict_def ps(3) table_access_def)
  moreover have "doing 0 (Calling 0) ps" "doing 1 (Calling 1) ps"
    by (simp_all add: doing_def ps(2) THREAD_POOL_SIZE_def)
  ultimately have "data_race S ps" unfolding data_race_def by (metis zero_neq_one)
  with ps(1) show ?thesis by blast
qed

abbreviation blog_items :: "item list" where
  "blog_items \<equiv> [PortItem 80, LocationItem ''/s'' (BlogPlace ''127.0.0.1'' ''5432'' ''u'' ''p'')]"

definition blog_config :: NginxConfig where
  "blog_config = fold with_item blog_items new_config"

lemma blog_config_fields [simp]:
  "static_locations blog_config = []" "echo_locations blog_config = []" "status_locations blog_config = []"
  "proxy_locations blog_config = []" "redirect_locations blog_config = []" "health_locations blog_config = []"
  "upload_form_locations blog_config = []" "blog_ips blog_config = [(''/s'', ''127.0.0.1'')]"
  "blog_ports blog_config = [(''/s'', ''5432'')]" "blog_usernames blog_config = [(''/s'', ''u'')]"
  "blog_passwords blog_config = [(''/s'', ''p'')]" "port_number blog_config = 80"
  "handler_types blog_config = [''BlogHandler'', ''{'', ''host'', quoted ''127.0.0.1'', '';'', ''port'', quoted ''5432'',
     ''username'', quoted ''u'', ''password'', quoted ''p'', ''}'']"
  by (simp_all add: blog_config_def new_config_def with_place_def umap_put_def uset_insert_def quoted_def)

lemma blog_config_parsed: "parse_file (\<lambda>_. Some (print_config blog_items)) f new_config = Inr (True, blog_config)"
  using parse_config_printed [of blog_items] by (simp add: parse_file_def blog_config_def MAX_PORT_def)

definition blog_dispatcher :: "Blog list request_dispatcher" where
  "blog_dispatcher = projr (create_handler_mapping (\<lambda>l. l) (\<lambda>_. []) blog_config)"

lemma blog_mapping:
  "\<exists>h. create_handler_mapping (\<lambda>l. l) (\<lambda>_. []) blog_config = Inr blog_dispatcher \<and> config_of blog_dispatcher = blog_config \<and>
    map_of (table blog_dispatcher) ''/s'' = Some (Some (BlogHandler h))"
  by (simp add: blog_dispatcher_def create_handler_mapping_def register_type_def empty_dispatcher_def Let_def blog_Init_def
      map_at_def quoted_def)

lemma blog_main:
  "main_program (iteration_order example_setting) (\<lambda>_. []) (\<lambda>_. Some (print_config blog_items)) (\<lambda>_. True)
     [''server'', ''config''] () = Inr (Serve 80 (new_server blog_dispatcher ()))"
  using blog_mapping by (auto simp: main_program_def blog_config_parsed [simplified])

theorem blog_race_witness:
  "\<exists>ps. acts example_setting (Live (new_process (new_server blog_dispatcher ())))
    (connect_all 2 @ send_all (\<lambda>j. if j = 0 then get_static else get_static) 2) (Live ps) \<and> data_race example_setting ps"
proof -
  obtain h where h: "config_of blog_dispatcher = blog_config" "map_of (table blog_dispatcher) ''/s'' = Some (Some (BlogHandler h))"
    using blog_mapping by blast
  have there: "map_of (table (dispatcher (new_server blog_dispatcher ()))) ''/s'' = Some (Some (BlogHandler h))"
    using h(2) by (simp add: new_server_def start_accept_def)
  have key: "handler_key (iteration_order example_setting) (config_of (dispatcher (new_server blog_dispatcher ()))) (tr_uri get_static)
      = Some ''/s''"
    by (simp add: new_server_def start_accept_def h(1) handler_key_def Let_def unescape_uri_decode decode_spaces_plain
        longest_prefix_match.simps find_last_of.simps)
  show ?thesis
    by (rule blog_race [OF blog_main there key key get_static_ok(1) get_static_length get_static_ok(1) get_static_length])
qed


abbreviation status_items :: "item list" where "status_items \<equiv> [PortItem 80, LocationItem ''/status'' StatusPlace]"

definition status_config :: NginxConfig where
  "status_config = fold with_item status_items new_config"

lemma status_config_fields [simp]:
  "static_locations status_config = []" "echo_locations status_config = []" "status_locations status_config = [''/status'']"
  "proxy_locations status_config = []" "redirect_locations status_config = []" "health_locations status_config = []"
  "upload_form_locations status_config = []" "blog_ips status_config = []"
  "port_number status_config = 80" "handler_types status_config = [''StatusHandler'']"
  by (simp_all add: status_config_def new_config_def with_place_def umap_put_def uset_insert_def)





subsection \<open>Handlers that do not return\<close>




text \<open>A proxy location whose server redirects every request to itself.\<close>

definition loop_setting :: "nat \<Rightarrow> (Blog list, unit, unit, unit) setting" where
  "loop_setting n = \<lparr>iteration_order = (\<lambda>l. l),
     handlers_env = example_environment\<lparr>servers := constant_network redirect_y, redirect_limit := n\<rparr>,
     uninitialised_method = (\<lambda>_. None)\<rparr>"

lemma loop_setting_simps [simp]:
  "iteration_order (loop_setting n) = (\<lambda>l. l)" "servers (handlers_env (loop_setting n)) = constant_network redirect_y"
  by (simp_all add: loop_setting_def)



end
